theory Spec2Isabelle
  imports Main "HOL-Library.Word"
begin

unbundle bit_operations_syntax

section \<open>Data model\<close>

text \<open>
  The translation-lookaside-buffer level of the simulator exists in two revisions of the
  same source file.  Revision A (\<open>access_A\<close>, \<open>translate_A\<close>) takes a \<open>TLBReq\<close> and brackets
  only the nested page-table-entry fetch with \<open>startAccess\<close>/\<open>endAccess\<close>; revision B
  (\<open>access_B\<close>, \<open>translate_B\<close>) takes a \<open>MemReq\<close>, brackets the whole access, notifies the
  coherence controller of the eviction and gates the page walk by the \<open>pageWalk\<close> flag.
  \<open>invalidate\<close> is the same text in both.

  Addresses and cycles are \<open>uint64_t\<close>, latencies given to the constructor are \<open>uint32_t\<close>,
  a line identifier is \<open>int32_t\<close> with \<open>-1\<close> (all ones) meaning "not found".
\<close>

type_synonym Address = "64 word"
type_synonym cycle_t = "64 word"
type_synonym lineId_t = "32 word"

datatype AccessType = GETS | GETX | PUTS | PUTX

datatype MESIState = I | S | E | M

datatype InvType = INV | INVX | FWD

text \<open>
  A \<open>MESIState*\<close> is either the address of the local variable \<open>dummyState\<close> (of
  \<open>TLB::translate\<close> in revision B, of \<open>TLB::access\<close> in revision A) or some other cell.
\<close>

datatype stateptr = DummyState | StateCell nat

text \<open>
  \<open>MemReq\<close>, in the order of its aggregate initialiser
  \<open>{addr, GETS, 0, &dummyState, cycle, nullptr, dummyState, srcId, reqFlags}\<close>.  The first
  member is read as \<open>req.pageNum\<close> by \<open>TLB::access\<close> and holds the line address of a nested
  page-table-entry fetch.
\<close>

record MemReq =
  pageNum :: Address
  type :: AccessType
  childId :: "32 word"
  state :: stateptr
  cycle :: cycle_t
  childLock :: "nat option"
  initialState :: MESIState
  srcId :: "32 word"
  flags :: "32 word"

text \<open>\<open>TLBReq\<close> of revision A, built as \<open>{pPageNum, curCycle, 0}\<close>.\<close>

record TLBReq =
  tpageNum :: Address
  tcycle :: cycle_t
  tflags :: "32 word"

record InvReq =
  lineAddr :: Address
  itype :: InvType
  icycle :: cycle_t
  writeback :: nat
  isrcId :: "32 word"

text \<open>
  The fields of the level and the constants it reads.  \<open>procMask\<close>, \<open>pageBits\<close>,
  \<open>lineBits\<close> and \<open>pteSize\<close> are declared outside the translated files and are taken as
  parameters; shift counts are below 64.
\<close>

record TLB =
  numLines :: "32 word"
  accLat :: "32 word"
  invLat :: "32 word"
  name :: string
  tlbSrcId :: "32 word"
  reqFlags :: "32 word"
  pageWalk :: bool
  pageWalkLat :: cycle_t
  procMask :: Address
  pageBits :: nat
  lineBits :: nat
  pteSize :: "64 word"

datatype error = Panic string | AssertionFailed | DivideByZero

section \<open>Collaborators\<close>

text \<open>
  The coherence controller, the array and the replacement policy are reached through
  pointers; their code is not part of the translated files.  Their internal state is the
  component \<open>coll\<close> of the world, next to the coherence-state cells that requests point to.
\<close>

record 'c world =
  cells :: "stateptr \<Rightarrow> MESIState"
  coll :: 'c

text \<open>
  The interface, one field per member function the level calls.  The level always passes
  \<open>nullptr\<close> as requester and \<open>false\<close> as \<open>updateReplacement\<close>; these constant arguments are
  left out.  \<open>array_preinsert\<close> returns
  the slot and the address it wrote through its \<open>Address*\<close> argument; \<open>cc_startAccess\<close>
  returns the skip flag and the type it left in the request, which it takes by reference
  ("may change req.type").
\<close>

record 'c env =
  array_lookup :: "Address \<Rightarrow> 'c world \<Rightarrow> lineId_t \<times> 'c world"
  array_preinsert :: "Address \<Rightarrow> 'c world \<Rightarrow> (lineId_t \<times> Address) \<times> 'c world"
  array_postinsert :: "Address \<Rightarrow> MemReq \<Rightarrow> lineId_t \<Rightarrow> 'c world \<Rightarrow> 'c world"
  cc_startAccess :: "MemReq \<Rightarrow> 'c world \<Rightarrow> (bool \<times> AccessType) \<times> 'c world"
  cc_processAccess :: "MemReq \<Rightarrow> lineId_t \<Rightarrow> cycle_t \<Rightarrow> 'c world \<Rightarrow> cycle_t \<times> 'c world"
  cc_processEviction ::
    "MemReq \<Rightarrow> Address \<Rightarrow> lineId_t \<Rightarrow> cycle_t \<Rightarrow> 'c world \<Rightarrow> cycle_t \<times> 'c world"
  cc_processInv :: "InvReq \<Rightarrow> lineId_t \<Rightarrow> cycle_t \<Rightarrow> 'c world \<Rightarrow> cycle_t \<times> 'c world"
  cc_endAccess :: "MemReq \<Rightarrow> 'c world \<Rightarrow> 'c world"

text \<open>
  Every call to a collaborator is recorded, with its arguments and what it returned, in the
  order the calls are made.
\<close>

datatype event =
    EvLookup Address lineId_t
  | EvPreinsert Address lineId_t Address
  | EvPostinsert Address MemReq lineId_t
  | EvStartAccess MemReq bool AccessType
  | EvProcessAccess MemReq lineId_t cycle_t cycle_t
  | EvProcessEviction MemReq Address lineId_t cycle_t cycle_t
  | EvProcessInv InvReq lineId_t cycle_t cycle_t
  | EvEndAccess MemReq

type_synonym 'c st = "'c world \<times> event list"

definition lookup :: "'c env \<Rightarrow> Address \<Rightarrow> 'c st \<Rightarrow> lineId_t \<times> 'c st" where
  "lookup env key st =
     (case array_lookup env key (fst st) of
        (lineId, w) \<Rightarrow> (lineId, (w, snd st @ [EvLookup key lineId])))"

definition preinsert :: "'c env \<Rightarrow> Address \<Rightarrow> 'c st \<Rightarrow> (lineId_t \<times> Address) \<times> 'c st" where
  "preinsert env key st =
     (case array_preinsert env key (fst st) of
        ((lineId, wb), w) \<Rightarrow> ((lineId, wb), (w, snd st @ [EvPreinsert key lineId wb])))"

definition postinsert :: "'c env \<Rightarrow> Address \<Rightarrow> MemReq \<Rightarrow> lineId_t \<Rightarrow> 'c st \<Rightarrow> 'c st" where
  "postinsert env key req lineId st =
     (array_postinsert env key req lineId (fst st), snd st @ [EvPostinsert key req lineId])"

definition startAccess :: "'c env \<Rightarrow> MemReq \<Rightarrow> 'c st \<Rightarrow> (bool \<times> MemReq) \<times> 'c st" where
  "startAccess env req st =
     (case cc_startAccess env req (fst st) of
        ((skip, ty), w) \<Rightarrow>
          ((skip, req\<lparr>type := ty\<rparr>), (w, snd st @ [EvStartAccess req skip ty])))"

definition processAccess ::
  "'c env \<Rightarrow> MemReq \<Rightarrow> lineId_t \<Rightarrow> cycle_t \<Rightarrow> 'c st \<Rightarrow> cycle_t \<times> 'c st" where
  "processAccess env req lineId startCycle st =
     (case cc_processAccess env req lineId startCycle (fst st) of
        (c, w) \<Rightarrow> (c, (w, snd st @ [EvProcessAccess req lineId startCycle c])))"

definition processEviction ::
  "'c env \<Rightarrow> MemReq \<Rightarrow> Address \<Rightarrow> lineId_t \<Rightarrow> cycle_t \<Rightarrow> 'c st \<Rightarrow> cycle_t \<times> 'c st" where
  "processEviction env req wb lineId startCycle st =
     (case cc_processEviction env req wb lineId startCycle (fst st) of
        (c, w) \<Rightarrow> (c, (w, snd st @ [EvProcessEviction req wb lineId startCycle c])))"

definition processInv ::
  "'c env \<Rightarrow> InvReq \<Rightarrow> lineId_t \<Rightarrow> cycle_t \<Rightarrow> 'c st \<Rightarrow> cycle_t \<times> 'c st" where
  "processInv env req lineId startCycle st =
     (case cc_processInv env req lineId startCycle (fst st) of
        (c, w) \<Rightarrow> (c, (w, snd st @ [EvProcessInv req lineId startCycle c])))"

definition endAccess :: "'c env \<Rightarrow> MemReq \<Rightarrow> 'c st \<Rightarrow> 'c st" where
  "endAccess env req st = (cc_endAccess env req (fst st), snd st @ [EvEndAccess req])"

text \<open>\<open>MESIState dummyState = MESIState::I;\<close>\<close>

definition init_dummyState :: "'c st \<Rightarrow> 'c st" where
  "init_dummyState st = ((fst st)\<lparr>cells := (cells (fst st))(DummyState := I)\<rparr>, snd st)"

type_synonym 'c result = "(error + cycle_t) \<times> 'c st"

section \<open>TLB::invalidate (both revisions)\<close>

text \<open>
  \<open>panic\<close> prints its message and ends the process; \<open>assert_msg\<close> does so when its condition
  is false.  The statements after the \<open>panic\<close> are kept as \<open>invalidate_rest\<close>.
\<close>

definition panic :: "string \<Rightarrow> 'c st \<Rightarrow> (error \<times> 'c st) + 'c st" where
  "panic msg st = Inl (Panic msg, st)"

definition invalidate_rest :: "'c env \<Rightarrow> TLB \<Rightarrow> InvReq \<Rightarrow> 'c st \<Rightarrow> 'c result" where
  "invalidate_rest env tlb req st0 =
     (case lookup env (lineAddr req) st0 of
        (lineId, st1) \<Rightarrow>
          if \<not> (lineId \<noteq> - 1) then (Inl AssertionFailed, st1)
          else
            let respCycle = icycle req + ucast (invLat tlb) in
            case processInv env req lineId respCycle st1 of
              (respCycle, st2) \<Rightarrow> (Inr respCycle, st2))"

definition invalidate :: "'c env \<Rightarrow> TLB \<Rightarrow> InvReq \<Rightarrow> 'c st \<Rightarrow> 'c result" where
  "invalidate env tlb req st0 =
     (case panic ''TLB entry should not be invalidated by lower level caches.'' st0 of
        Inl (e, st) \<Rightarrow> (Inl e, st)
      | Inr st1 \<Rightarrow> invalidate_rest env tlb req st1)"

section \<open>Revision A: TLB::translate and TLB::access on a TLBReq\<close>

definition vPageNum :: "TLB \<Rightarrow> Address \<Rightarrow> Address" where
  "vPageNum tlb vAddr = drop_bit (pageBits tlb) vAddr"

definition pPageNum :: "TLB \<Rightarrow> Address \<Rightarrow> Address" where
  "pPageNum tlb vAddr = procMask tlb OR vPageNum tlb vAddr"

text \<open>
  The division \<open>req.pageNum / pteSize\<close> traps when \<open>pteSize\<close> is zero; \<open>assert\<close> ends the
  process when its condition is false.
\<close>

definition access_A :: "'c env \<Rightarrow> TLB \<Rightarrow> TLBReq \<Rightarrow> 'c st \<Rightarrow> 'c result" where
  "access_A env tlb req st0 =
     (let respCycle = tcycle req in
      case lookup env (tpageNum req) st0 of
        (lineId, st1) \<Rightarrow>
          let respCycle = respCycle + ucast (accLat tlb) in
          if lineId = - 1 then
            (case preinsert env (tpageNum req) st1 of
               ((lineId, WbAddr), st2) \<Rightarrow>
                 if pteSize tlb = 0 then (Inl DivideByZero, st2)
                 else
                   let pLineAddr = drop_bit (lineBits tlb) (tpageNum req div pteSize tlb);
                       respCycle = respCycle + pageWalkLat tlb;
                       st3 = init_dummyState st2;
                       mem_req = \<lparr>pageNum = pLineAddr, type = GETS, childId = 0,
                                  state = DummyState, cycle = respCycle, childLock = None,
                                  initialState = I, srcId = tlbSrcId tlb,
                                  flags = reqFlags tlb\<rparr>;
                       st4 = postinsert env (tpageNum req) mem_req lineId st3
                   in case startAccess env mem_req st4 of
                        ((skipAccess, mem_req), st5) \<Rightarrow>
                          if \<not> (\<not> skipAccess) then (Inl AssertionFailed, st5)
                          else
                            case processAccess env mem_req lineId respCycle st5 of
                              (respCycle, st6) \<Rightarrow>
                                (Inr respCycle, endAccess env mem_req st6))
          else (Inr respCycle, st1))"

definition translate_A :: "'c env \<Rightarrow> TLB \<Rightarrow> Address \<Rightarrow> cycle_t \<Rightarrow> 'c st \<Rightarrow> 'c result" where
  "translate_A env tlb vAddr curCycle st =
     (let req = \<lparr>tpageNum = pPageNum tlb vAddr, tcycle = curCycle, tflags = 0\<rparr>
      in access_A env tlb req st)"

section \<open>Revision B: TLB::translate and TLB::access on a MemReq\<close>

text \<open>The body of \<open>if (pageWalk) { ... }\<close>: the new running cycle, or the trap.\<close>

definition access_B_walk ::
  "'c env \<Rightarrow> TLB \<Rightarrow> MemReq \<Rightarrow> lineId_t \<Rightarrow> cycle_t \<Rightarrow> 'c st \<Rightarrow> (error \<times> 'c st) + (cycle_t \<times> 'c st)"
  where
  "access_B_walk env tlb req lineId respCycle st0 =
     (if pteSize tlb = 0 then Inl (DivideByZero, st0)
      else
        let pLineAddr = drop_bit (lineBits tlb) (pageNum req div pteSize tlb);
            respCycle = respCycle + pageWalkLat tlb;
            mem_req = \<lparr>pageNum = pLineAddr, type = GETS, childId = 0, state = state req,
                       cycle = respCycle, childLock = None,
                       initialState = cells (fst st0) (state req), srcId = srcId req,
                       flags = flags req\<rparr>
        in Inr (processAccess env mem_req lineId respCycle st0))"

text \<open>
  The body of \<open>if (lineId == -1) { ... }\<close>: the slot, the running cycle and the flag
  \<open>accessed\<close>.
\<close>

definition access_B_miss ::
  "'c env \<Rightarrow> TLB \<Rightarrow> MemReq \<Rightarrow> cycle_t \<Rightarrow> 'c st \<Rightarrow>
     (error \<times> 'c st) + ((lineId_t \<times> cycle_t \<times> bool) \<times> 'c st)"
  where
  "access_B_miss env tlb req respCycle st0 =
     (case preinsert env (pageNum req) st0 of
        ((lineId, WbAddr), st1) \<Rightarrow>
          case processEviction env req WbAddr lineId respCycle st1 of
            (respCycle, st2) \<Rightarrow>
              (case (if pageWalk tlb then
                       (case access_B_walk env tlb req lineId respCycle st2 of
                          Inl e \<Rightarrow> Inl e
                        | Inr (respCycle, st3) \<Rightarrow> Inr ((respCycle, True), st3))
                     else Inr ((respCycle, False), st2)) of
                 Inl e \<Rightarrow> Inl e
               | Inr ((respCycle, accessed), st4) \<Rightarrow>
                   Inr ((lineId, respCycle, accessed),
                        postinsert env (pageNum req) req lineId st4)))"

text \<open>
  \<open>if (likely(!skipAccess)) { }\<close> has an empty body: both of its branches leave the state
  as it is.
\<close>

definition access_B :: "'c env \<Rightarrow> TLB \<Rightarrow> MemReq \<Rightarrow> 'c st \<Rightarrow> 'c result" where
  "access_B env tlb req0 st0 =
     (let respCycle = cycle req0 in
      case startAccess env req0 st0 of
        ((skipAccess, req), st1) \<Rightarrow>
          let st1 = (if \<not> skipAccess then st1 else st1) in
          case lookup env (pageNum req) st1 of
            (lineId, st2) \<Rightarrow>
              let respCycle = respCycle + ucast (accLat tlb);
                  accessed = False
              in (case (if lineId = - 1 then access_B_miss env tlb req respCycle st2
                        else Inr ((lineId, respCycle, accessed), st2)) of
                    Inl (e, st) \<Rightarrow> (Inl e, st)
                  | Inr ((lineId, respCycle, accessed), st3) \<Rightarrow>
                      (case (if \<not> accessed then processAccess env req lineId respCycle st3
                             else (respCycle, st3)) of
                         (respCycle, st4) \<Rightarrow> (Inr respCycle, endAccess env req st4))))"

definition translate_B :: "'c env \<Rightarrow> TLB \<Rightarrow> Address \<Rightarrow> cycle_t \<Rightarrow> 'c st \<Rightarrow> 'c result" where
  "translate_B env tlb vAddr curCycle st =
     (let st1 = init_dummyState st;
          req = \<lparr>pageNum = pPageNum tlb vAddr, type = GETS, childId = 0, state = DummyState,
                 cycle = curCycle, childLock = None, initialState = I,
                 srcId = tlbSrcId tlb, flags = reqFlags tlb\<rparr>
      in access_B env tlb req st1)"

section \<open>A one-entry instance of the collaborators\<close>

text \<open>
  An array of capacity one whose only slot is always the victim, and a coherence controller
  that reports a fixed skip flag, charges a fixed latency for an access and none for an
  eviction or an invalidation.  It serves to run the level on concrete requests.
\<close>

definition demo_env :: "bool \<Rightarrow> cycle_t \<Rightarrow> (Address option) env" where
  "demo_env skip lat =
     \<lparr>array_lookup = (\<lambda>key w. (if coll w = Some key then 0 else - 1, w)),
      array_preinsert = (\<lambda>key w. ((0, case coll w of None \<Rightarrow> 0 | Some k \<Rightarrow> k), w)),
      array_postinsert = (\<lambda>key req lineId w. w\<lparr>coll := Some key\<rparr>),
      cc_startAccess = (\<lambda>req w. ((skip, type req), w)),
      cc_processAccess = (\<lambda>req lineId c w. (c + lat, w)),
      cc_processEviction = (\<lambda>req wb lineId c w. (c, w)),
      cc_processInv = (\<lambda>req lineId c w. (c, w)),
      cc_endAccess = (\<lambda>req w. w)\<rparr>"

definition demo_world :: "Address option \<Rightarrow> (Address option) world" where
  "demo_world slot = \<lparr>cells = (\<lambda>p. I), coll = slot\<rparr>"

definition demo_tlb :: TLB where
  "demo_tlb =
     \<lparr>numLines = 1, accLat = 2, invLat = 5, name = ''tlb'', tlbSrcId = - 1, reqFlags = 1,
      pageWalk = True, pageWalkLat = 10, procMask = 0, pageBits = 12, lineBits = 6,
      pteSize = 8\<rparr>"

definition demo_req :: "Address \<Rightarrow> cycle_t \<Rightarrow> MemReq" where
  "demo_req key c =
     \<lparr>pageNum = key, type = GETS, childId = 0, state = DummyState, cycle = c,
      childLock = None, initialState = I, srcId = - 1, flags = 1\<rparr>"

section \<open>Observing a run\<close>

text \<open>
  The calls one access makes when started on world \<open>w\<close>, and how it ends: \<open>Inr\<close> the
  completion cycle it returns, \<open>Inl\<close> the reason the process stopped.
\<close>

definition calls_A :: "'c env \<Rightarrow> TLB \<Rightarrow> TLBReq \<Rightarrow> 'c world \<Rightarrow> event list" where
  "calls_A env tlb req w = snd (snd (access_A env tlb req (w, [])))"

definition outcome_A :: "'c env \<Rightarrow> TLB \<Rightarrow> TLBReq \<Rightarrow> 'c world \<Rightarrow> error + cycle_t" where
  "outcome_A env tlb req w = fst (access_A env tlb req (w, []))"

definition calls_B :: "'c env \<Rightarrow> TLB \<Rightarrow> MemReq \<Rightarrow> 'c world \<Rightarrow> event list" where
  "calls_B env tlb req w = snd (snd (access_B env tlb req (w, [])))"

definition outcome_B :: "'c env \<Rightarrow> TLB \<Rightarrow> MemReq \<Rightarrow> 'c world \<Rightarrow> error + cycle_t" where
  "outcome_B env tlb req w = fst (access_B env tlb req (w, []))"

text \<open>
  An access misses when \<open>array->lookup\<close> returns \<open>-1\<close>.  Revision A looks up in the world it
  is started on, revision B in the world \<open>cc->startAccess\<close> leaves.
\<close>

definition misses_A :: "'c env \<Rightarrow> TLBReq \<Rightarrow> 'c world \<Rightarrow> bool" where
  "misses_A env req w = (fst (array_lookup env (tpageNum req) w) = - 1)"

definition misses_B :: "'c env \<Rightarrow> MemReq \<Rightarrow> 'c world \<Rightarrow> bool" where
  "misses_B env req w =
     (fst (array_lookup env (pageNum req) (snd (cc_startAccess env req w))) = - 1)"

definition skips_B :: "'c env \<Rightarrow> MemReq \<Rightarrow> 'c world \<Rightarrow> bool" where
  "skips_B env req w = fst (fst (cc_startAccess env req w))"

text \<open>The nested page-table-entry fetch each revision builds on a miss.\<close>

definition mem_req_A :: "TLB \<Rightarrow> TLBReq \<Rightarrow> MemReq" where
  "mem_req_A tlb req =
     \<lparr>pageNum = drop_bit (lineBits tlb) (tpageNum req div pteSize tlb), type = GETS,
      childId = 0, state = DummyState,
      cycle = tcycle req + ucast (accLat tlb) + pageWalkLat tlb, childLock = None,
      initialState = I, srcId = tlbSrcId tlb, flags = reqFlags tlb\<rparr>"

definition mem_req_B :: "TLB \<Rightarrow> MemReq \<Rightarrow> cycle_t \<Rightarrow> MESIState \<Rightarrow> MemReq" where
  "mem_req_B tlb req c ist =
     \<lparr>pageNum = drop_bit (lineBits tlb) (pageNum req div pteSize tlb), type = GETS,
      childId = 0, state = state req, cycle = c + pageWalkLat tlb, childLock = None,
      initialState = ist, srcId = srcId req, flags = flags req\<rparr>"

text \<open>Selecting calls by the member function called.\<close>

fun is_preinsert :: "event \<Rightarrow> bool" where
  "is_preinsert (EvPreinsert k l wb) = True"
| "is_preinsert e = False"

fun is_postinsert :: "event \<Rightarrow> bool" where
  "is_postinsert (EvPostinsert k r l) = True"
| "is_postinsert e = False"

fun is_startAccess :: "event \<Rightarrow> bool" where
  "is_startAccess (EvStartAccess r sk ty) = True"
| "is_startAccess e = False"

fun is_endAccess :: "event \<Rightarrow> bool" where
  "is_endAccess (EvEndAccess r) = True"
| "is_endAccess e = False"

fun is_processAccess :: "event \<Rightarrow> bool" where
  "is_processAccess (EvProcessAccess r l s c) = True"
| "is_processAccess e = False"

fun is_processEviction :: "event \<Rightarrow> bool" where
  "is_processEviction (EvProcessEviction r a l s c) = True"
| "is_processEviction e = False"

definition inserts :: "event list \<Rightarrow> event list" where
  "inserts tr = filter (\<lambda>e. is_preinsert e \<or> is_postinsert e) tr"

definition brackets :: "event list \<Rightarrow> event list" where
  "brackets tr = filter (\<lambda>e. is_startAccess e \<or> is_endAccess e) tr"

text \<open>
  The keys handed to the array (by \<open>lookup\<close>, \<open>preinsert\<close> and \<open>postinsert\<close>) and the keys
  committed by \<open>postinsert\<close>, in order.
\<close>

fun array_keys :: "event list \<Rightarrow> Address list" where
  "array_keys [] = []"
| "array_keys (EvLookup k l # tr) = k # array_keys tr"
| "array_keys (EvPreinsert k l wb # tr) = k # array_keys tr"
| "array_keys (EvPostinsert k r l # tr) = k # array_keys tr"
| "array_keys (e # tr) = array_keys tr"

fun postinsert_keys :: "event list \<Rightarrow> Address list" where
  "postinsert_keys [] = []"
| "postinsert_keys (EvPostinsert k r l # tr) = k # postinsert_keys tr"
| "postinsert_keys (e # tr) = postinsert_keys tr"

text \<open>
  The start cycles handed to the coherence controller, in order, and whether a call of
  the controller returned a cycle no smaller than the start cycle it was given.
\<close>

fun cc_starts :: "event list \<Rightarrow> cycle_t list" where
  "cc_starts [] = []"
| "cc_starts (EvProcessAccess r l s c # tr) = s # cc_starts tr"
| "cc_starts (EvProcessEviction r a l s c # tr) = s # cc_starts tr"
| "cc_starts (EvProcessInv r l s c # tr) = s # cc_starts tr"
| "cc_starts (e # tr) = cc_starts tr"

fun cc_monotone :: "event \<Rightarrow> bool" where
  "cc_monotone (EvProcessAccess r l s c) = (s \<le> c)"
| "cc_monotone (EvProcessEviction r a l s c) = (s \<le> c)"
| "cc_monotone (EvProcessInv r l s c) = (s \<le> c)"
| "cc_monotone e = True"

text \<open>
  Whether adding the page-walk latency to the cycle a call of \<open>processEviction\<close> returned
  stays below \<open>2 ^ 64\<close> (revision B adds it only when \<open>pageWalk\<close> is set).
\<close>

fun walk_fits :: "TLB \<Rightarrow> event \<Rightarrow> bool" where
  "walk_fits tlb (EvProcessEviction r a l s c) =
     (if pageWalk tlb then unat c + unat (pageWalkLat tlb) < 2 ^ 64 else True)"
| "walk_fits tlb e = True"

text \<open>
  A history of the level: translations issued one after the other, each by a process with
  its own \<open>procMask\<close>, until one of them stops the process.
\<close>

fun translate_seq_A ::
  "'c env \<Rightarrow> TLB \<Rightarrow> (Address \<times> Address \<times> cycle_t) list \<Rightarrow> 'c st \<Rightarrow> 'c st" where
  "translate_seq_A env tlb [] st = st"
| "translate_seq_A env tlb ((m, vAddr, curCycle) # xs) st =
     (case translate_A env (tlb\<lparr>procMask := m\<rparr>) vAddr curCycle st of
        (Inl e, st1) \<Rightarrow> st1
      | (Inr c, st1) \<Rightarrow> translate_seq_A env tlb xs st1)"

fun translate_seq_B ::
  "'c env \<Rightarrow> TLB \<Rightarrow> (Address \<times> Address \<times> cycle_t) list \<Rightarrow> 'c st \<Rightarrow> 'c st" where
  "translate_seq_B env tlb [] st = st"
| "translate_seq_B env tlb ((m, vAddr, curCycle) # xs) st =
     (case translate_B env (tlb\<lparr>procMask := m\<rparr>) vAddr curCycle st of
        (Inl e, st1) \<Rightarrow> st1
      | (Inr c, st1) \<Rightarrow> translate_seq_B env tlb xs st1)"

section \<open>The array of the specification\<close>

text \<open>
  Modelled from the spec: the array (\<open>CacheArray\<close>) and the replacement policy
  (\<open>ReplPolicy\<close>), whose code is not among the translated files.  Section 4.1 of the
  specification: \<open>lookup\<close> is a pure read that returns the slot holding the key, or
  \<open>NOT_FOUND\<close>; \<open>preinsert\<close> selects a victim slot through the replacement policy, reports
  the victim's current key and does not mutate the slot; \<open>postinsert\<close> commits the key into
  the slot and informs the replacement policy of the insertion.  Section 3: a slot holds a
  tag and a validity, and the capacity is fixed.  Section 5: the slots are owned by the
  level; the coherence controller owns the coherence state and the replacement policy owns
  its own metadata, and neither mutates a committed key.

  A slot is \<open>None\<close> when it is not valid and \<open>Some key\<close> when it holds \<open>key\<close>; the victim key
  reported for a slot that is not valid is 0.  The replacement policy is a parameter: what
  it chooses as victim, and how an insertion changes its state.
\<close>

record 'r ReplPolicy =
  rp_victim :: "'r \<Rightarrow> Address \<Rightarrow> Address option list \<Rightarrow> lineId_t"
  rp_inserted :: "'r \<Rightarrow> lineId_t \<Rightarrow> MemReq \<Rightarrow> 'r"

text \<open>
  Modelled from the spec: the state behind the level, split by owner: the slots of the
  array, the metadata of the replacement policy, the state of the coherence controller.
\<close>

record ('r, 'k) level =
  slots :: "Address option list"
  rp :: 'r
  ccState :: 'k

text \<open>
  Modelled from the spec: a coherence controller that reads and writes the coherence-state
  cells and its own state only (section 4.3 gives its member functions, section 5 what it
  owns).  What each member function returns is a parameter.
\<close>

type_synonym 'k ccw = "(stateptr \<Rightarrow> MESIState) \<times> 'k"

record 'k controller =
  ctl_startAccess :: "MemReq \<Rightarrow> 'k ccw \<Rightarrow> (bool \<times> AccessType) \<times> 'k ccw"
  ctl_processAccess :: "MemReq \<Rightarrow> lineId_t \<Rightarrow> cycle_t \<Rightarrow> 'k ccw \<Rightarrow> cycle_t \<times> 'k ccw"
  ctl_processEviction ::
    "MemReq \<Rightarrow> Address \<Rightarrow> lineId_t \<Rightarrow> cycle_t \<Rightarrow> 'k ccw \<Rightarrow> cycle_t \<times> 'k ccw"
  ctl_processInv :: "InvReq \<Rightarrow> lineId_t \<Rightarrow> cycle_t \<Rightarrow> 'k ccw \<Rightarrow> cycle_t \<times> 'k ccw"
  ctl_endAccess :: "MemReq \<Rightarrow> 'k ccw \<Rightarrow> 'k ccw"

text \<open>
  Modelled from the spec: \<open>lookup\<close> of section 4.1, the first slot that holds the key,
  counted from \<open>i\<close>, or \<open>-1\<close>.
\<close>

fun find_slot :: "Address \<Rightarrow> Address option list \<Rightarrow> lineId_t \<Rightarrow> lineId_t" where
  "find_slot key [] i = - 1"
| "find_slot key (s # ss) i = (if s = Some key then i else find_slot key ss (i + 1))"

text \<open>Modelled from the spec: the victim's current key, as \<open>preinsert\<close> reports it.\<close>

definition victim_key :: "Address option list \<Rightarrow> lineId_t \<Rightarrow> Address" where
  "victim_key ss l =
     (if unat l < length ss then (case ss ! unat l of None \<Rightarrow> 0 | Some k \<Rightarrow> k) else 0)"

text \<open>
  Modelled from the spec: running the controller on its own part of the world; the slots
  and the replacement policy's state stay as they are.
\<close>

definition ctl_view :: "('r, 'k) level world \<Rightarrow> 'k ccw" where
  "ctl_view w = (cells w, ccState (coll w))"

definition ctl_put :: "('r, 'k) level world \<Rightarrow> 'k ccw \<Rightarrow> ('r, 'k) level world" where
  "ctl_put w v = w\<lparr>cells := fst v, coll := (coll w)\<lparr>ccState := snd v\<rparr>\<rparr>"

text \<open>
  Modelled from the spec: the collaborators of the level, assembled from a replacement
  policy and a coherence controller around the array of section 4.1.  \<open>postinsert\<close> on a
  slot outside the array is a programming error in the specification; here it leaves the
  slots as they are, and the statements about the committed slot take the victim inside
  the array.
\<close>

definition spec_env :: "'r ReplPolicy \<Rightarrow> 'k controller \<Rightarrow> (('r, 'k) level) env" where
  "spec_env pol ctl =
     \<lparr>array_lookup = (\<lambda>key w. (find_slot key (slots (coll w)) 0, w)),
      array_preinsert =
        (\<lambda>key w. let l = rp_victim pol (rp (coll w)) key (slots (coll w))
                  in ((l, victim_key (slots (coll w)) l), w)),
      array_postinsert =
        (\<lambda>key req l w.
           w\<lparr>coll := (coll w)\<lparr>slots := (slots (coll w))[unat l := Some key],
                                rp := rp_inserted pol (rp (coll w)) l req\<rparr>\<rparr>),
      cc_startAccess =
        (\<lambda>req w. case ctl_startAccess ctl req (ctl_view w) of (r, v) \<Rightarrow> (r, ctl_put w v)),
      cc_processAccess =
        (\<lambda>req l c w. case ctl_processAccess ctl req l c (ctl_view w) of
                        (r, v) \<Rightarrow> (r, ctl_put w v)),
      cc_processEviction =
        (\<lambda>req wb l c w. case ctl_processEviction ctl req wb l c (ctl_view w) of
                           (r, v) \<Rightarrow> (r, ctl_put w v)),
      cc_processInv =
        (\<lambda>req l c w. case ctl_processInv ctl req l c (ctl_view w) of
                        (r, v) \<Rightarrow> (r, ctl_put w v)),
      cc_endAccess = (\<lambda>req w. ctl_put w (ctl_endAccess ctl req (ctl_view w)))\<rparr>"

text \<open>The keys resident in the array: those of its valid slots.\<close>

fun resident :: "Address option list \<Rightarrow> Address list" where
  "resident [] = []"
| "resident (None # ss) = resident ss"
| "resident (Some k # ss) = k # resident ss"

text \<open>
  The slot a miss fills: the victim the replacement policy chooses for the key on the
  array as the access finds it.
\<close>

definition victim_slot :: "'r ReplPolicy \<Rightarrow> Address \<Rightarrow> ('r, 'k) level world \<Rightarrow> nat" where
  "victim_slot pol key w = unat (rp_victim pol (rp (coll w)) key (slots (coll w)))"

text \<open>
  An instance for concrete runs: the policy always evicts slot 0, the controller never
  reports skip, charges \<open>lat\<close> cycles for an access and none for an eviction or an
  invalidation.
\<close>

definition demo_pol :: "unit ReplPolicy" where
  "demo_pol = \<lparr>rp_victim = (\<lambda>r key ss. 0), rp_inserted = (\<lambda>r l req. r)\<rparr>"

definition demo_ctl :: "cycle_t \<Rightarrow> unit controller" where
  "demo_ctl lat =
     \<lparr>ctl_startAccess = (\<lambda>req v. ((False, type req), v)),
      ctl_processAccess = (\<lambda>req l c v. (c + lat, v)),
      ctl_processEviction = (\<lambda>req wb l c v. (c, v)),
      ctl_processInv = (\<lambda>req l c v. (c, v)),
      ctl_endAccess = (\<lambda>req v. v)\<rparr>"

definition demo_level :: "Address option list \<Rightarrow> (unit, unit) level world" where
  "demo_level ss = \<lparr>cells = (\<lambda>p. I), coll = \<lparr>slots = ss, rp = (), ccState = ()\<rparr>\<rparr>"

section \<open>The calls of one access, path by path\<close>

lemmas call_defs = lookup_def preinsert_def postinsert_def startAccess_def processAccess_def
  processEviction_def processInv_def endAccess_def init_dummyState_def

lemma access_A_hit:
  assumes "fst (array_lookup env (tpageNum req) w) \<noteq> - 1"
  shows "\<exists>l w'. l \<noteq> - 1 \<and> access_A env tlb req (w, tr) =
           (Inr (tcycle req + ucast (accLat tlb)), w', tr @ [EvLookup (tpageNum req) l])"
  using assms by (auto simp: access_A_def call_defs Let_def split: prod.splits)

lemma access_A_trap:
  assumes "fst (array_lookup env (tpageNum req) w) = - 1" and "pteSize tlb = 0"
  shows "\<exists>l wb w'. access_A env tlb req (w, tr) =
           (Inl DivideByZero, w',
            tr @ [EvLookup (tpageNum req) (- 1), EvPreinsert (tpageNum req) l wb])"
  using assms by (auto simp: access_A_def call_defs Let_def split: prod.splits)

lemma access_A_miss:
  assumes "fst (array_lookup env (tpageNum req) w) = - 1" and "pteSize tlb \<noteq> 0"
  shows "\<exists>l wb sk ty c w'. access_A env tlb req (w, tr) =
           ((if sk then Inl AssertionFailed else Inr c), w',
            tr @ [EvLookup (tpageNum req) (- 1), EvPreinsert (tpageNum req) l wb,
                  EvPostinsert (tpageNum req) (mem_req_A tlb req) l,
                  EvStartAccess (mem_req_A tlb req) sk ty] @
                 (if sk then []
                  else [EvProcessAccess ((mem_req_A tlb req)\<lparr>type := ty\<rparr>) l
                          (tcycle req + ucast (accLat tlb) + pageWalkLat tlb) c,
                        EvEndAccess ((mem_req_A tlb req)\<lparr>type := ty\<rparr>)]))"
proof -
  obtain w1 where 1: "array_lookup env (tpageNum req) w = (- 1, w1)"
    using assms(1) by (cases "array_lookup env (tpageNum req) w") simp
  obtain l wb w2 where 2: "array_preinsert env (tpageNum req) w1 = ((l, wb), w2)"
    by (cases "array_preinsert env (tpageNum req) w1") auto
  let ?w3 = "array_postinsert env (tpageNum req) (mem_req_A tlb req) l
               (w2\<lparr>cells := (cells w2)(DummyState := I)\<rparr>)"
  obtain sk ty w4 where 3: "cc_startAccess env (mem_req_A tlb req) ?w3 = ((sk, ty), w4)"
    by (cases "cc_startAccess env (mem_req_A tlb req) ?w3") auto
  let ?c0 = "tcycle req + ucast (accLat tlb) + pageWalkLat tlb"
  obtain c w5 where
    4: "cc_processAccess env ((mem_req_A tlb req)\<lparr>type := ty\<rparr>) l ?c0 w4 = (c, w5)"
    by (cases "cc_processAccess env ((mem_req_A tlb req)\<lparr>type := ty\<rparr>) l ?c0 w4") auto
  show ?thesis
  proof (cases sk)
    case True
    with 1 2 3 assms(2) have "access_A env tlb req (w, tr) =
        (Inl AssertionFailed, w4,
         tr @ [EvLookup (tpageNum req) (- 1), EvPreinsert (tpageNum req) l wb,
               EvPostinsert (tpageNum req) (mem_req_A tlb req) l,
               EvStartAccess (mem_req_A tlb req) True ty])"
      by (simp add: access_A_def call_defs Let_def mem_req_A_def)
    with True show ?thesis by force
  next
    case False
    with 1 2 3 4 assms(2) have "access_A env tlb req (w, tr) =
        (Inr c, cc_endAccess env ((mem_req_A tlb req)\<lparr>type := ty\<rparr>) w5,
         tr @ [EvLookup (tpageNum req) (- 1), EvPreinsert (tpageNum req) l wb,
               EvPostinsert (tpageNum req) (mem_req_A tlb req) l,
               EvStartAccess (mem_req_A tlb req) False ty,
               EvProcessAccess ((mem_req_A tlb req)\<lparr>type := ty\<rparr>) l ?c0 c,
               EvEndAccess ((mem_req_A tlb req)\<lparr>type := ty\<rparr>)])"
      by (simp add: access_A_def call_defs Let_def mem_req_A_def)
    with False show ?thesis by force
  qed
qed

lemma access_B_hit:
  assumes "fst (array_lookup env (pageNum req) (snd (cc_startAccess env req w))) \<noteq> - 1"
  shows "\<exists>ty l c w'. l \<noteq> - 1 \<and> access_B env tlb req (w, tr) =
           (Inr c, w',
            tr @ [EvStartAccess req (fst (fst (cc_startAccess env req w))) ty,
                  EvLookup (pageNum req) l,
                  EvProcessAccess (req\<lparr>type := ty\<rparr>) l (cycle req + ucast (accLat tlb)) c,
                  EvEndAccess (req\<lparr>type := ty\<rparr>)])"
  using assms
  by (auto simp: access_B_def call_defs Let_def split: prod.splits)

lemma access_B_miss_nowalk:
  assumes "fst (array_lookup env (pageNum req) (snd (cc_startAccess env req w))) = - 1"
    and "\<not> pageWalk tlb"
  shows "\<exists>ty l wb c1 c2 w'. access_B env tlb req (w, tr) =
           (Inr c2, w',
            tr @ [EvStartAccess req (fst (fst (cc_startAccess env req w))) ty,
                  EvLookup (pageNum req) (- 1),
                  EvPreinsert (pageNum req) l wb,
                  EvProcessEviction (req\<lparr>type := ty\<rparr>) wb l
                    (cycle req + ucast (accLat tlb)) c1,
                  EvPostinsert (pageNum req) (req\<lparr>type := ty\<rparr>) l,
                  EvProcessAccess (req\<lparr>type := ty\<rparr>) l c1 c2,
                  EvEndAccess (req\<lparr>type := ty\<rparr>)])"
  using assms
  by (auto simp: access_B_def access_B_miss_def call_defs Let_def split: prod.splits)

lemma access_B_miss_walk:
  assumes "fst (array_lookup env (pageNum req) (snd (cc_startAccess env req w))) = - 1"
    and "pageWalk tlb" and "pteSize tlb \<noteq> 0"
  shows "\<exists>ty l wb c1 c2 ist w'. access_B env tlb req (w, tr) =
           (Inr c2, w',
            tr @ [EvStartAccess req (fst (fst (cc_startAccess env req w))) ty,
                  EvLookup (pageNum req) (- 1),
                  EvPreinsert (pageNum req) l wb,
                  EvProcessEviction (req\<lparr>type := ty\<rparr>) wb l
                    (cycle req + ucast (accLat tlb)) c1,
                  EvProcessAccess (mem_req_B tlb req c1 ist) l (c1 + pageWalkLat tlb) c2,
                  EvPostinsert (pageNum req) (req\<lparr>type := ty\<rparr>) l,
                  EvEndAccess (req\<lparr>type := ty\<rparr>)])"
  using assms
  by (auto simp: access_B_def access_B_miss_def access_B_walk_def call_defs Let_def
      mem_req_B_def split: prod.splits)

lemma access_B_trap:
  assumes "fst (array_lookup env (pageNum req) (snd (cc_startAccess env req w))) = - 1"
    and "pageWalk tlb" and "pteSize tlb = 0"
  shows "\<exists>ty l wb c1 w'. access_B env tlb req (w, tr) =
           (Inl DivideByZero, w',
            tr @ [EvStartAccess req (fst (fst (cc_startAccess env req w))) ty,
                  EvLookup (pageNum req) (- 1),
                  EvPreinsert (pageNum req) l wb,
                  EvProcessEviction (req\<lparr>type := ty\<rparr>) wb l
                    (cycle req + ucast (accLat tlb)) c1])"
  using assms
  by (auto simp: access_B_def access_B_miss_def access_B_walk_def call_defs Let_def
      split: prod.splits)

lemmas demo_defs = demo_env_def demo_world_def demo_tlb_def demo_req_def

lemma calls_A_never_evicts: "filter is_processEviction (calls_A env tlb req w) = []"
proof (cases "fst (array_lookup env (tpageNum req) w) = - 1")
  case False
  from access_A_hit [OF this, of tlb "[]"] show ?thesis
    by (auto simp: calls_A_def)
next
  case miss: True
  show ?thesis
  proof (cases "pteSize tlb = 0")
    case True
    from access_A_trap [OF miss this, of "[]"] show ?thesis
      by (auto simp: calls_A_def)
  next
    case False
    from access_A_miss [OF miss this, of "[]"] show ?thesis
      by (auto simp: calls_A_def)
  qed
qed

lemma calls_A_miss_preinsert:
  assumes "misses_A env req w"
  shows "\<exists>l wb. filter is_preinsert (calls_A env tlb req w) = [EvPreinsert (tpageNum req) l wb]"
proof -
  from assms have miss: "fst (array_lookup env (tpageNum req) w) = - 1"
    by (simp add: misses_A_def)
  show ?thesis
  proof (cases "pteSize tlb = 0")
    case True
    from access_A_trap [OF miss this, of "[]"] show ?thesis
      by (auto simp: calls_A_def)
  next
    case False
    from access_A_miss [OF miss this, of "[]"] show ?thesis
      by (auto simp: calls_A_def)
  qed
qed

section \<open>Invalidation\<close>

text \<open>
  The statements of \<open>TLB::invalidate\<close> that follow the \<open>panic\<close>: on a present address they
  look the line up and return what \<open>processInv\<close> returns when started at the issuing cycle
  plus \<open>invLat\<close>; on an absent address the assertion fails.
\<close>

lemma invalidate_rest_present:
  assumes "fst (array_lookup env (lineAddr req) w) \<noteq> - 1"
  shows "\<exists>l c w'. invalidate_rest env tlb req (w, tr) =
           (Inr c, w', tr @ [EvLookup (lineAddr req) l,
              EvProcessInv req l (icycle req + ucast (invLat tlb)) c])"
  using assms
  by (auto simp: invalidate_rest_def call_defs Let_def split: prod.splits)

lemma invalidate_rest_absent:
  assumes "fst (array_lookup env (lineAddr req) w) = - 1"
  shows "fst (invalidate_rest env tlb req (w, tr)) = Inl AssertionFailed"
  using assms
  by (auto simp: invalidate_rest_def call_defs Let_def split: prod.splits)

text \<open>
  C1, as the code has it: \<open>TLB::invalidate\<close> is fatal for every invalidation request,
  whether its address is present in the array or not.  It panics before the array is looked
  up, so it calls no collaborator and leaves the world as it was.
\<close>

theorem invalidate_always_panics:
  "invalidate env tlb req st =
     (Inl (Panic ''TLB entry should not be invalidated by lower level caches.''), st)"
  by (simp add: invalidate_def panic_def)

text \<open>
  C1 as stated fails: the one-entry array holds address 7, and invalidating address 7 does
  not return a cycle.
\<close>

theorem invalidate_present_counterexample:
  "fst (array_lookup (demo_env False 0) 7 (demo_world (Some 7))) \<noteq> - 1 \<and>
   fst (invalidate (demo_env False 0) demo_tlb
          \<lparr>lineAddr = 7, itype = INV, icycle = 100, writeback = 0, isrcId = 0\<rparr>
          (demo_world (Some 7), [])) =
     Inl (Panic ''TLB entry should not be invalidated by lower level caches.'')"
  by (simp add: invalidate_def panic_def demo_defs)

section \<open>The skip flag\<close>

text \<open>
  Whatever \<open>startAccess\<close> reports, the next call of revision B is the array lookup.
\<close>

lemma access_B_first_calls:
  "\<exists>ty l rest. calls_B env tlb req w =
     EvStartAccess req (skips_B env req w) ty # EvLookup (pageNum req) l # rest"
proof (cases "fst (array_lookup env (pageNum req) (snd (cc_startAccess env req w))) = - 1")
  case False
  from access_B_hit [OF this, of tlb "[]"] show ?thesis
    by (auto simp: calls_B_def skips_B_def)
next
  case miss: True
  show ?thesis
  proof (cases "pageWalk tlb")
    case False
    from access_B_miss_nowalk [OF miss this, of "[]"] show ?thesis
      by (auto simp: calls_B_def skips_B_def)
  next
    case walk: True
    show ?thesis
    proof (cases "pteSize tlb = 0")
      case True
      from access_B_trap [OF miss walk this, of "[]"] show ?thesis
        by (auto simp: calls_B_def skips_B_def)
    next
      case False
      from access_B_miss_walk [OF miss walk this, of "[]"] show ?thesis
        by (auto simp: calls_B_def skips_B_def)
    qed
  qed
qed

text \<open>
  C2 at a concrete access of revision B: \<open>startAccess\<close> reports skip, the page is resident,
  and the access still looks the array up and calls \<open>processAccess\<close> before \<open>endAccess\<close>;
  the cycle it returns is the one \<open>processAccess\<close> returned.
\<close>

theorem access_B_skip_runs_pipeline:
  "skips_B (demo_env True 30) (demo_req 1 100) (demo_world (Some 1)) \<and>
   outcome_B (demo_env True 30) demo_tlb (demo_req 1 100) (demo_world (Some 1)) = Inr 132 \<and>
   calls_B (demo_env True 30) demo_tlb (demo_req 1 100) (demo_world (Some 1)) =
     [EvStartAccess (demo_req 1 100) True GETS, EvLookup 1 0,
      EvProcessAccess (demo_req 1 100) 0 102 132, EvEndAccess (demo_req 1 100)]"
  by (simp add: skips_B_def outcome_B_def calls_B_def access_B_def call_defs demo_defs)

section \<open>Eviction on a miss\<close>

text \<open>
  C3, as the code has it.  In revision B every access that misses calls \<open>preinsert\<close>, then
  \<open>processEviction\<close> with the victim's key and the chosen slot, started at the issuing cycle
  plus \<open>accLat\<close>; no later call is a \<open>preinsert\<close> or a \<open>processEviction\<close>, and the next call
  of the controller starts at the cycle \<open>processEviction\<close> returned (plus the page-walk
  latency when the page walk is enabled).  In revision A a miss calls \<open>preinsert\<close> once and
  \<open>processEviction\<close> is never called.
\<close>

theorem access_B_miss_evicts:
  assumes "misses_B env req w"
  shows "(\<exists>sk ty l wb c1 rest.
           calls_B env tlb req w =
             [EvStartAccess req sk ty, EvLookup (pageNum req) (- 1),
              EvPreinsert (pageNum req) l wb,
              EvProcessEviction (req\<lparr>type := ty\<rparr>) wb l (cycle req + ucast (accLat tlb)) c1]
             @ rest \<and>
           filter is_preinsert rest = [] \<and> filter is_processEviction rest = [] \<and>
           cc_starts rest =
             (if pageWalk tlb then (if pteSize tlb = 0 then [] else [c1 + pageWalkLat tlb])
              else [c1])) \<and>
         filter is_processEviction (calls_A envA tlbA reqA wA) = [] \<and>
         (misses_A envA reqA wA \<longrightarrow>
            (\<exists>l wb. filter is_preinsert (calls_A envA tlbA reqA wA) =
                      [EvPreinsert (tpageNum reqA) l wb]))"
proof -
  from assms have miss:
    "fst (array_lookup env (pageNum req) (snd (cc_startAccess env req w))) = - 1"
    by (simp add: misses_B_def)
  have "\<exists>sk ty l wb c1 rest.
           calls_B env tlb req w =
             [EvStartAccess req sk ty, EvLookup (pageNum req) (- 1),
              EvPreinsert (pageNum req) l wb,
              EvProcessEviction (req\<lparr>type := ty\<rparr>) wb l (cycle req + ucast (accLat tlb)) c1]
             @ rest \<and>
           filter is_preinsert rest = [] \<and> filter is_processEviction rest = [] \<and>
           cc_starts rest =
             (if pageWalk tlb then (if pteSize tlb = 0 then [] else [c1 + pageWalkLat tlb])
              else [c1])"
  proof (cases "pageWalk tlb")
    case False
    from access_B_miss_nowalk [OF miss this, of "[]"] False show ?thesis
      by (auto simp: calls_B_def)
  next
    case walk: True
    show ?thesis
    proof (cases "pteSize tlb = 0")
      case True
      from access_B_trap [OF miss walk this, of "[]"] walk True show ?thesis
        by (auto simp: calls_B_def)
    next
      case False
      from access_B_miss_walk [OF miss walk this, of "[]"] walk False show ?thesis
        by (auto simp: calls_B_def)
    qed
  qed
  then show ?thesis
    using calls_A_never_evicts [of envA tlbA reqA wA]
      calls_A_miss_preinsert [of envA reqA wA tlbA] by blast
qed

text \<open>The theorem of C3 at a miss of each revision on the empty one-entry array.\<close>

theorem access_B_miss_evicts_witness:
  "misses_B (demo_env False 30) (demo_req 1 100) (demo_world None) \<and>
   misses_A (demo_env False 30) \<lparr>tpageNum = 1, tcycle = 100, tflags = 0\<rparr> (demo_world None) \<and>
   (\<exists>sk ty l wb c1 rest.
      calls_B (demo_env False 30) demo_tlb (demo_req 1 100) (demo_world None) =
        [EvStartAccess (demo_req 1 100) sk ty, EvLookup 1 (- 1), EvPreinsert 1 l wb,
         EvProcessEviction ((demo_req 1 100)\<lparr>type := ty\<rparr>) wb l 102 c1] @ rest \<and>
      filter is_preinsert rest = [] \<and> filter is_processEviction rest = [] \<and>
      cc_starts rest = [c1 + 10]) \<and>
   filter is_processEviction (calls_A (demo_env False 30) demo_tlb
      \<lparr>tpageNum = 1, tcycle = 100, tflags = 0\<rparr> (demo_world None)) = [] \<and>
   (\<exists>l wb. filter is_preinsert (calls_A (demo_env False 30) demo_tlb
      \<lparr>tpageNum = 1, tcycle = 100, tflags = 0\<rparr> (demo_world None)) = [EvPreinsert 1 l wb])"
proof -
  have h: "misses_B (demo_env False 30) (demo_req 1 100) (demo_world None)"
    by (simp add: misses_B_def demo_defs)
  have hA: "misses_A (demo_env False 30) \<lparr>tpageNum = 1, tcycle = 100, tflags = 0\<rparr>
              (demo_world None)"
    by (simp add: misses_A_def demo_defs)
  have t: "pageWalk demo_tlb" "pteSize demo_tlb \<noteq> 0" "pageWalkLat demo_tlb = 10"
    "cycle (demo_req 1 100) + ucast (accLat demo_tlb) = 102" "pageNum (demo_req 1 100) = 1"
    by (simp_all add: demo_defs)
  from access_B_miss_evicts [OF h, of demo_tlb "demo_env False 30" demo_tlb
      "\<lparr>tpageNum = 1, tcycle = 100, tflags = 0\<rparr>" "demo_world None"] h hA
  show ?thesis by (simp add: t)
qed

text \<open>
  C3 as stated fails on revision A: the access misses, \<open>preinsert\<close> chooses slot 0, and no
  call to \<open>processEviction\<close> is made.
\<close>

theorem access_A_miss_no_eviction_counterexample:
  "misses_A (demo_env False 30) \<lparr>tpageNum = 1, tcycle = 100, tflags = 0\<rparr> (demo_world None) \<and>
   filter is_preinsert (calls_A (demo_env False 30) demo_tlb
       \<lparr>tpageNum = 1, tcycle = 100, tflags = 0\<rparr> (demo_world None)) = [EvPreinsert 1 0 0] \<and>
   filter is_processEviction (calls_A (demo_env False 30) demo_tlb
       \<lparr>tpageNum = 1, tcycle = 100, tflags = 0\<rparr> (demo_world None)) = []"
  by (simp add: misses_A_def calls_A_def access_A_def call_defs demo_defs Let_def)

section \<open>Completion cycle\<close>

text \<open>Adding a latency to a cycle is exact as long as the sum stays below \<open>2 ^ 64\<close>.\<close>

lemma unat_add_lat:
  fixes c :: "64 word" and lat :: "32 word"
  assumes "unat c + unat lat < 2 ^ 64"
  shows "unat (c + ucast lat) = unat c + unat lat"
proof -
  have "unat lat < 2 ^ 32"
    using unsigned_less [of lat] by simp
  then have "unat lat < 2 ^ 64"
    by simp
  then have u: "unat (ucast lat :: 64 word) = unat lat"
    by (simp add: unsigned_ucast_eq take_bit_nat_eq_self)
  with assms have "unat c + unat (ucast lat :: 64 word) < 2 ^ LENGTH(64)" by simp
  then have "unat (c + ucast lat) = unat c + unat (ucast lat :: 64 word)"
    by (simp only: unat_add_lem)
  with u show ?thesis by simp
qed

lemma unat_add_fits:
  fixes c d :: "64 word"
  assumes "unat c + unat d < 2 ^ 64"
  shows "unat (c + d) = unat c + unat d"
proof -
  from assms have "unat c + unat d < 2 ^ LENGTH(64)" by simp
  then show ?thesis by (simp only: unat_add_lem)
qed

text \<open>
  C4, as the code has it.  Take an access that returns, in which every call of the
  coherence controller returned a cycle no smaller than the start cycle it was given, and
  in which no addition to the running cycle wraps around \<open>2 ^ 64\<close> (the addition of
  \<open>accLat\<close> to the issuing cycle, and the addition of the page-walk latency where the path
  makes it).  Then the completion cycle is at least the issuing cycle plus \<open>accLat\<close>, in
  both revisions.  \<open>accLat\<close> is added before any call that takes a cycle: in revision B the
  first such call starts at the issuing cycle plus \<open>accLat\<close>, on a hit and on a miss; in
  revision A a hit makes no such call and a miss makes one, started at the issuing cycle
  plus \<open>accLat\<close> plus the page-walk latency.
\<close>

theorem access_completion_bound:
  assumes "outcome_B env tlb req w = Inr c"
    and "list_all cc_monotone (calls_B env tlb req w)"
    and "list_all (walk_fits tlb) (calls_B env tlb req w)"
    and "unat (cycle req) + unat (accLat tlb) < 2 ^ 64"
    and "outcome_A envA tlbA reqA wA = Inr cA"
    and "list_all cc_monotone (calls_A envA tlbA reqA wA)"
    and "unat (tcycle reqA) + unat (accLat tlbA) +
           (if misses_A envA reqA wA then unat (pageWalkLat tlbA) else 0) < 2 ^ 64"
  shows "unat (cycle req) + unat (accLat tlb) \<le> unat c \<and>
         (\<exists>rest. cc_starts (calls_B env tlb req w) = (cycle req + ucast (accLat tlb)) # rest) \<and>
         unat (tcycle reqA) + unat (accLat tlbA) \<le> unat cA \<and>
         cc_starts (calls_A envA tlbA reqA wA) =
           (if misses_A envA reqA wA
            then [tcycle reqA + ucast (accLat tlbA) + pageWalkLat tlbA] else [])"
proof -
  let ?s = "cycle req + ucast (accLat tlb)"
  have s: "unat ?s = unat (cycle req) + unat (accLat tlb)"
    using assms(4) by (rule unat_add_lat)
  have B: "unat (cycle req) + unat (accLat tlb) \<le> unat c \<and>
           (\<exists>rest. cc_starts (calls_B env tlb req w) = ?s # rest)"
  proof (cases "fst (array_lookup env (pageNum req) (snd (cc_startAccess env req w))) = - 1")
    case False
    from access_B_hit [OF this, of tlb "[]"] assms(1,2) s show ?thesis
      by (auto simp: calls_B_def outcome_B_def word_le_nat_alt)
  next
    case miss: True
    show ?thesis
    proof (cases "pageWalk tlb")
      case False
      from access_B_miss_nowalk [OF miss this, of "[]"] assms(1,2) s show ?thesis
        by (auto simp: calls_B_def outcome_B_def word_le_nat_alt)
    next
      case walk: True
      show ?thesis
      proof (cases "pteSize tlb = 0")
        case True
        from access_B_trap [OF miss walk this, of "[]"] assms(1) show ?thesis
          by (auto simp: calls_B_def outcome_B_def)
      next
        case False
        from access_B_miss_walk [OF miss walk this, of "[]"]
        obtain ty l wb c1 c2 ist w' where r: "access_B env tlb req (w, []) =
           (Inr c2, w',
            [] @ [EvStartAccess req (fst (fst (cc_startAccess env req w))) ty,
                  EvLookup (pageNum req) (- 1),
                  EvPreinsert (pageNum req) l wb,
                  EvProcessEviction (req\<lparr>type := ty\<rparr>) wb l ?s c1,
                  EvProcessAccess (mem_req_B tlb req c1 ist) l (c1 + pageWalkLat tlb) c2,
                  EvPostinsert (pageNum req) (req\<lparr>type := ty\<rparr>) l,
                  EvEndAccess (req\<lparr>type := ty\<rparr>)])"
          by blast
        from r assms(1) have c: "c = c2" by (simp add: outcome_B_def)
        from r assms(2) have m: "?s \<le> c1" "c1 + pageWalkLat tlb \<le> c2"
          by (simp_all add: calls_B_def)
        from r assms(3) walk have f: "unat c1 + unat (pageWalkLat tlb) < 2 ^ 64"
          by (simp add: calls_B_def)
        from f have "unat (c1 + pageWalkLat tlb) = unat c1 + unat (pageWalkLat tlb)"
          by (rule unat_add_fits)
        with m s c have "unat (cycle req) + unat (accLat tlb) \<le> unat c"
          by (simp add: word_le_nat_alt)
        with r show ?thesis by (simp add: calls_B_def)
      qed
    qed
  qed
  have A: "unat (tcycle reqA) + unat (accLat tlbA) \<le> unat cA \<and>
         cc_starts (calls_A envA tlbA reqA wA) =
           (if misses_A envA reqA wA
            then [tcycle reqA + ucast (accLat tlbA) + pageWalkLat tlbA] else [])"
  proof (cases "fst (array_lookup envA (tpageNum reqA) wA) = - 1")
    case False
    then have nm: "\<not> misses_A envA reqA wA" by (simp add: misses_A_def)
    with assms(7) have "unat (tcycle reqA) + unat (accLat tlbA) < 2 ^ 64" by simp
    then have "unat (tcycle reqA + ucast (accLat tlbA)) = unat (tcycle reqA) + unat (accLat tlbA)"
      by (rule unat_add_lat)
    with access_A_hit [OF False, of tlbA "[]"] assms(5) nm show ?thesis
      by (auto simp: calls_A_def outcome_A_def)
  next
    case miss: True
    then have mm: "misses_A envA reqA wA" by (simp add: misses_A_def)
    show ?thesis
    proof (cases "pteSize tlbA = 0")
      case True
      from access_A_trap [OF miss this, of "[]"] assms(5) show ?thesis
        by (auto simp: outcome_A_def)
    next
      case False
      let ?a = "tcycle reqA + ucast (accLat tlbA)"
      from access_A_miss [OF miss False, of "[]"]
      obtain l wb sk ty c w' where r: "access_A envA tlbA reqA (wA, []) =
           ((if sk then Inl AssertionFailed else Inr c), w',
            [] @ [EvLookup (tpageNum reqA) (- 1), EvPreinsert (tpageNum reqA) l wb,
                  EvPostinsert (tpageNum reqA) (mem_req_A tlbA reqA) l,
                  EvStartAccess (mem_req_A tlbA reqA) sk ty] @
                 (if sk then []
                  else [EvProcessAccess ((mem_req_A tlbA reqA)\<lparr>type := ty\<rparr>) l
                          (?a + pageWalkLat tlbA) c,
                        EvEndAccess ((mem_req_A tlbA reqA)\<lparr>type := ty\<rparr>)]))"
        by blast
      from r assms(5) have sk: "\<not> sk" and c: "cA = c"
        by (auto simp: outcome_A_def split: if_splits)
      from r sk assms(6) have m: "?a + pageWalkLat tlbA \<le> c"
        by (simp add: calls_A_def)
      from assms(7) mm have f: "unat (tcycle reqA) + unat (accLat tlbA) < 2 ^ 64"
        by simp
      then have a: "unat ?a = unat (tcycle reqA) + unat (accLat tlbA)"
        by (rule unat_add_lat)
      with assms(7) mm have "unat ?a + unat (pageWalkLat tlbA) < 2 ^ 64" by simp
      then have "unat (?a + pageWalkLat tlbA) = unat ?a + unat (pageWalkLat tlbA)"
        by (rule unat_add_fits)
      with m a c have "unat (tcycle reqA) + unat (accLat tlbA) \<le> unat cA"
        by (simp add: word_le_nat_alt)
      with r sk mm show ?thesis by (simp add: calls_A_def)
    qed
  qed
  from A B show ?thesis by blast
qed

text \<open>
  The theorem of C4 at a page-walk miss of revision B (issued at 100, completed at 142) and
  a hit of revision A (issued at 100, completed at 102).
\<close>

theorem access_completion_bound_witness:
  "outcome_B (demo_env False 30) demo_tlb (demo_req 1 100) (demo_world None) = Inr 142 \<and>
   list_all cc_monotone (calls_B (demo_env False 30) demo_tlb (demo_req 1 100) (demo_world None)) \<and>
   list_all (walk_fits demo_tlb)
     (calls_B (demo_env False 30) demo_tlb (demo_req 1 100) (demo_world None)) \<and>
   unat (cycle (demo_req 1 100)) + unat (accLat demo_tlb) < 2 ^ 64 \<and>
   outcome_A (demo_env False 30) demo_tlb \<lparr>tpageNum = 1, tcycle = 100, tflags = 0\<rparr>
     (demo_world (Some 1)) = Inr 102 \<and>
   list_all cc_monotone (calls_A (demo_env False 30) demo_tlb
     \<lparr>tpageNum = 1, tcycle = 100, tflags = 0\<rparr> (demo_world (Some 1))) \<and>
   \<not> misses_A (demo_env False 30) \<lparr>tpageNum = 1, tcycle = 100, tflags = 0\<rparr>
     (demo_world (Some 1)) \<and>
   unat (100 :: 64 word) + unat (accLat demo_tlb) \<le> unat (142 :: 64 word) \<and>
   (\<exists>rest. cc_starts (calls_B (demo_env False 30) demo_tlb (demo_req 1 100)
      (demo_world None)) = 102 # rest) \<and>
   unat (100 :: 64 word) + unat (accLat demo_tlb) \<le> unat (102 :: 64 word) \<and>
   cc_starts (calls_A (demo_env False 30) demo_tlb \<lparr>tpageNum = 1, tcycle = 100, tflags = 0\<rparr>
     (demo_world (Some 1))) = []"
proof -
  let ?E = "demo_env False 30"
  let ?R = "\<lparr>tpageNum = 1, tcycle = 100, tflags = 0\<rparr>"
  have b: "access_B ?E demo_tlb (demo_req 1 100) (demo_world None, []) =
     (Inr 142, demo_world (Some 1),
      [EvStartAccess (demo_req 1 100) False GETS, EvLookup 1 (- 1), EvPreinsert 1 0 0,
       EvProcessEviction (demo_req 1 100) 0 0 102 102,
       EvProcessAccess (mem_req_B demo_tlb (demo_req 1 100) 102 I) 0 112 142,
       EvPostinsert 1 (demo_req 1 100) 0, EvEndAccess (demo_req 1 100)])"
    by (simp add: access_B_def access_B_miss_def access_B_walk_def call_defs demo_defs
        mem_req_B_def Let_def)
  have a: "access_A ?E demo_tlb ?R (demo_world (Some 1), []) =
     (Inr 102, demo_world (Some 1), [EvLookup 1 0])"
    by (simp add: access_A_def call_defs demo_defs Let_def)
  have 1: "outcome_B ?E demo_tlb (demo_req 1 100) (demo_world None) = Inr 142"
    by (simp add: outcome_B_def b)
  have 2: "list_all cc_monotone (calls_B ?E demo_tlb (demo_req 1 100) (demo_world None))"
    by (simp add: calls_B_def b)
  have 3: "list_all (walk_fits demo_tlb) (calls_B ?E demo_tlb (demo_req 1 100) (demo_world None))"
    by (simp add: calls_B_def b) (simp add: demo_tlb_def)
  have 4: "unat (cycle (demo_req 1 100)) + unat (accLat demo_tlb) < 2 ^ 64"
    by (simp add: demo_defs)
  have 5: "outcome_A ?E demo_tlb ?R (demo_world (Some 1)) = Inr 102"
    by (simp add: outcome_A_def a)
  have 6: "list_all cc_monotone (calls_A ?E demo_tlb ?R (demo_world (Some 1)))"
    by (simp add: calls_A_def a)
  have m: "\<not> misses_A ?E ?R (demo_world (Some 1))"
    by (simp add: misses_A_def demo_defs)
  have 7: "unat (tcycle ?R) + unat (accLat demo_tlb) +
           (if misses_A ?E ?R (demo_world (Some 1)) then unat (pageWalkLat demo_tlb) else 0)
           < 2 ^ 64"
    by (simp add: m) (simp add: demo_tlb_def)
  have t: "cycle (demo_req 1 100) = 100" "ucast (accLat demo_tlb) = (2 :: 64 word)"
    by (simp_all add: demo_defs)
  from access_completion_bound [OF 1 2 3 4 5 6 7] 1 2 3 4 5 6 m
  show ?thesis by (simp add: t)
qed

text \<open>
  C4 as stated fails when the cycle counter wraps: a miss of revision A issued at cycle
  \<open>2 ^ 64 - 5\<close> with \<open>accLat = 2\<close> and a page-walk latency of 10 starts its only controller
  call at cycle 7, the controller returns 7, and the access completes at cycle 7.
\<close>

theorem access_A_wraps_counterexample:
  "list_all cc_monotone (calls_A (demo_env False 0) demo_tlb
      \<lparr>tpageNum = 1, tcycle = 0xFFFFFFFFFFFFFFFB, tflags = 0\<rparr> (demo_world None)) \<and>
   outcome_A (demo_env False 0) demo_tlb
      \<lparr>tpageNum = 1, tcycle = 0xFFFFFFFFFFFFFFFB, tflags = 0\<rparr> (demo_world None) = Inr 7 \<and>
   \<not> ((0xFFFFFFFFFFFFFFFB :: 64 word) + ucast (accLat demo_tlb) \<le> 7) \<and>
   \<not> (unat (0xFFFFFFFFFFFFFFFB :: 64 word) + unat (accLat demo_tlb) \<le> unat (7 :: 64 word))"
  by (simp add: calls_A_def outcome_A_def access_A_def call_defs demo_defs Let_def)

section \<open>The page walk\<close>

text \<open>
  C5.  On a miss of revision B with the page walk enabled, exactly one call to
  \<open>processAccess\<close> is made.  Its request is the nested one: a \<open>GETS\<close> whose address is the
  page number divided by \<open>pteSize\<close> and shifted right by \<open>lineBits\<close>, issued at the cycle
  \<open>processEviction\<close> returned plus the page-walk latency, which is also the start cycle of
  the call; the slot is the one \<open>preinsert\<close> chose.  Revision A has no flag and walks on
  every miss: when the run is not halted by its assertion, its only call to \<open>processAccess\<close>
  is on the nested request, built the same way and issued at the issuing cycle plus \<open>accLat\<close>
  plus the page-walk latency, with the slot \<open>preinsert\<close> chose.  (\<open>pteSize\<close> is not zero.)
\<close>

theorem access_page_walk_request:
  assumes "misses_B env req w" and "pageWalk tlb" and "pteSize tlb \<noteq> 0"
    and "misses_A envA reqA wA" and "pteSize tlbA \<noteq> 0"
    and "outcome_A envA tlbA reqA wA \<noteq> Inl AssertionFailed"
  shows "(\<exists>ty l wb c1 c2 ist.
            filter is_processAccess (calls_B env tlb req w) =
              [EvProcessAccess (mem_req_B tlb req c1 ist) l (c1 + pageWalkLat tlb) c2] \<and>
            pageNum (mem_req_B tlb req c1 ist) =
              drop_bit (lineBits tlb) (pageNum req div pteSize tlb) \<and>
            type (mem_req_B tlb req c1 ist) = GETS \<and>
            cycle (mem_req_B tlb req c1 ist) = c1 + pageWalkLat tlb \<and>
            EvPreinsert (pageNum req) l wb \<in> set (calls_B env tlb req w) \<and>
            EvProcessEviction (req\<lparr>type := ty\<rparr>) wb l (cycle req + ucast (accLat tlb)) c1
              \<in> set (calls_B env tlb req w) \<and>
            outcome_B env tlb req w = Inr c2) \<and>
         (\<exists>ty l wb c.
            filter is_processAccess (calls_A envA tlbA reqA wA) =
              [EvProcessAccess ((mem_req_A tlbA reqA)\<lparr>type := ty\<rparr>) l
                 (tcycle reqA + ucast (accLat tlbA) + pageWalkLat tlbA) c] \<and>
            pageNum (mem_req_A tlbA reqA) =
              drop_bit (lineBits tlbA) (tpageNum reqA div pteSize tlbA) \<and>
            type (mem_req_A tlbA reqA) = GETS \<and>
            cycle (mem_req_A tlbA reqA) = tcycle reqA + ucast (accLat tlbA) + pageWalkLat tlbA \<and>
            EvPreinsert (tpageNum reqA) l wb \<in> set (calls_A envA tlbA reqA wA) \<and>
            EvStartAccess (mem_req_A tlbA reqA) False ty \<in> set (calls_A envA tlbA reqA wA) \<and>
            outcome_A envA tlbA reqA wA = Inr c)"
proof -
  from assms(1) have miss:
    "fst (array_lookup env (pageNum req) (snd (cc_startAccess env req w))) = - 1"
    by (simp add: misses_B_def)
  from assms(4) have missA: "fst (array_lookup envA (tpageNum reqA) wA) = - 1"
    by (simp add: misses_A_def)
  have B: "\<exists>ty l wb c1 c2 ist.
            filter is_processAccess (calls_B env tlb req w) =
              [EvProcessAccess (mem_req_B tlb req c1 ist) l (c1 + pageWalkLat tlb) c2] \<and>
            pageNum (mem_req_B tlb req c1 ist) =
              drop_bit (lineBits tlb) (pageNum req div pteSize tlb) \<and>
            type (mem_req_B tlb req c1 ist) = GETS \<and>
            cycle (mem_req_B tlb req c1 ist) = c1 + pageWalkLat tlb \<and>
            EvPreinsert (pageNum req) l wb \<in> set (calls_B env tlb req w) \<and>
            EvProcessEviction (req\<lparr>type := ty\<rparr>) wb l (cycle req + ucast (accLat tlb)) c1
              \<in> set (calls_B env tlb req w) \<and>
            outcome_B env tlb req w = Inr c2"
    using access_B_miss_walk [OF miss assms(2,3), of "[]"]
    by (auto simp: calls_B_def outcome_B_def mem_req_B_def)
  from access_A_miss [OF missA assms(5), of "[]"]
  obtain l wb sk ty c w' where r: "access_A envA tlbA reqA (wA, []) =
           ((if sk then Inl AssertionFailed else Inr c), w',
            [] @ [EvLookup (tpageNum reqA) (- 1), EvPreinsert (tpageNum reqA) l wb,
                  EvPostinsert (tpageNum reqA) (mem_req_A tlbA reqA) l,
                  EvStartAccess (mem_req_A tlbA reqA) sk ty] @
                 (if sk then []
                  else [EvProcessAccess ((mem_req_A tlbA reqA)\<lparr>type := ty\<rparr>) l
                          (tcycle reqA + ucast (accLat tlbA) + pageWalkLat tlbA) c,
                        EvEndAccess ((mem_req_A tlbA reqA)\<lparr>type := ty\<rparr>)]))"
    by blast
  from r assms(6) have sk: "\<not> sk"
    by (auto simp: outcome_A_def)
  have f: "pageNum (mem_req_A tlbA reqA) =
              drop_bit (lineBits tlbA) (tpageNum reqA div pteSize tlbA)"
     "type (mem_req_A tlbA reqA) = GETS"
     "cycle (mem_req_A tlbA reqA) = tcycle reqA + ucast (accLat tlbA) + pageWalkLat tlbA"
    by (simp_all add: mem_req_A_def)
  from r sk have
    "filter is_processAccess (calls_A envA tlbA reqA wA) =
              [EvProcessAccess ((mem_req_A tlbA reqA)\<lparr>type := ty\<rparr>) l
                 (tcycle reqA + ucast (accLat tlbA) + pageWalkLat tlbA) c]"
    "EvPreinsert (tpageNum reqA) l wb \<in> set (calls_A envA tlbA reqA wA)"
    "EvStartAccess (mem_req_A tlbA reqA) False ty \<in> set (calls_A envA tlbA reqA wA)"
    "outcome_A envA tlbA reqA wA = Inr c"
    by (simp_all add: calls_A_def outcome_A_def)
  with f have A: "\<exists>ty l wb c.
            filter is_processAccess (calls_A envA tlbA reqA wA) =
              [EvProcessAccess ((mem_req_A tlbA reqA)\<lparr>type := ty\<rparr>) l
                 (tcycle reqA + ucast (accLat tlbA) + pageWalkLat tlbA) c] \<and>
            pageNum (mem_req_A tlbA reqA) =
              drop_bit (lineBits tlbA) (tpageNum reqA div pteSize tlbA) \<and>
            type (mem_req_A tlbA reqA) = GETS \<and>
            cycle (mem_req_A tlbA reqA) = tcycle reqA + ucast (accLat tlbA) + pageWalkLat tlbA \<and>
            EvPreinsert (tpageNum reqA) l wb \<in> set (calls_A envA tlbA reqA wA) \<and>
            EvStartAccess (mem_req_A tlbA reqA) False ty \<in> set (calls_A envA tlbA reqA wA) \<and>
            outcome_A envA tlbA reqA wA = Inr c"
    by blast
  from A B show ?thesis by blast
qed

text \<open>
  The theorem of C5 at a miss on page \<open>0x1234\<close>: the nested request goes to line address 9.
\<close>

theorem access_page_walk_request_witness:
  "misses_B (demo_env False 30) (demo_req 4660 100) (demo_world None) \<and>
   pageWalk demo_tlb \<and> pteSize demo_tlb \<noteq> 0 \<and>
   misses_A (demo_env False 30) \<lparr>tpageNum = 4660, tcycle = 100, tflags = 0\<rparr> (demo_world None) \<and>
   outcome_A (demo_env False 30) demo_tlb \<lparr>tpageNum = 4660, tcycle = 100, tflags = 0\<rparr>
     (demo_world None) \<noteq> Inl AssertionFailed \<and>
   (\<exists>ty l wb c1 c2 ist.
      filter is_processAccess
        (calls_B (demo_env False 30) demo_tlb (demo_req 4660 100) (demo_world None)) =
        [EvProcessAccess (mem_req_B demo_tlb (demo_req 4660 100) c1 ist) l (c1 + 10) c2] \<and>
      pageNum (mem_req_B demo_tlb (demo_req 4660 100) c1 ist) = 9 \<and>
      type (mem_req_B demo_tlb (demo_req 4660 100) c1 ist) = GETS \<and>
      outcome_B (demo_env False 30) demo_tlb (demo_req 4660 100) (demo_world None) = Inr c2) \<and>
   (\<exists>ty l wb c.
      filter is_processAccess (calls_A (demo_env False 30) demo_tlb
         \<lparr>tpageNum = 4660, tcycle = 100, tflags = 0\<rparr> (demo_world None)) =
        [EvProcessAccess
           ((mem_req_A demo_tlb \<lparr>tpageNum = 4660, tcycle = 100, tflags = 0\<rparr>)\<lparr>type := ty\<rparr>)
           l 112 c] \<and>
      pageNum (mem_req_A demo_tlb \<lparr>tpageNum = 4660, tcycle = 100, tflags = 0\<rparr>) = 9 \<and>
      outcome_A (demo_env False 30) demo_tlb \<lparr>tpageNum = 4660, tcycle = 100, tflags = 0\<rparr>
        (demo_world None) = Inr c)"
proof -
  let ?E = "demo_env False 30"
  let ?R = "\<lparr>tpageNum = 4660, tcycle = 100, tflags = 0\<rparr>"
  have 1: "misses_B ?E (demo_req 4660 100) (demo_world None)"
    by (simp add: misses_B_def demo_defs)
  have 2: "pageWalk demo_tlb" and 3: "pteSize demo_tlb \<noteq> 0"
    by (simp_all add: demo_tlb_def)
  have 4: "misses_A ?E ?R (demo_world None)"
    by (simp add: misses_A_def demo_defs)
  have 6: "outcome_A ?E demo_tlb ?R (demo_world None) \<noteq> Inl AssertionFailed"
    by (simp add: outcome_A_def access_A_def call_defs demo_defs Let_def)
  have t: "pageWalkLat demo_tlb = 10" "lineBits demo_tlb = 6" "pteSize demo_tlb = 8"
    "ucast (accLat demo_tlb) = (2 :: 64 word)" "pageNum (demo_req 4660 100) = 4660"
    "drop_bit 6 (4660 div 8 :: 64 word) = 9"
    by (simp_all add: demo_defs drop_bit_eq_div)
  from access_page_walk_request [OF 1 2 3 4 3 6] 1 2 3 4 6
  show ?thesis by (simp add: t) blast
qed

section \<open>Array keys\<close>

text \<open>
  A mask whose low \<open>k\<close> bits are clear, combined by \<open>OR\<close> with a value below \<open>2 ^ k\<close>, can be
  read back from the result.  The page number \<open>vAddr >> pageBits\<close> is below
  \<open>2 ^ (64 - pageBits)\<close>.  Every key an access hands to the array is the page number of its
  request; through \<open>translate\<close> it is \<open>procMask | (vAddr >> pageBits)\<close>.
\<close>

lemma masked_key_inject:
  fixes m1 m2 v1 v2 :: "64 word"
  assumes "take_bit k m1 = 0" and "take_bit k m2 = 0"
    and "drop_bit k v1 = 0" and "drop_bit k v2 = 0"
    and "m1 OR v1 = m2 OR v2"
  shows "m1 = m2"
proof (rule bit_eqI)
  fix n
  assume "possible_bit TYPE(64 word) n"
  show "bit m1 n = bit m2 n"
  proof (cases "n < k")
    case True
    from assms(1) have "bit (take_bit k m1) n = False" by simp
    moreover from assms(2) have "bit (take_bit k m2) n = False" by simp
    ultimately show ?thesis using True by (simp add: bit_take_bit_iff)
  next
    case False
    then have "k \<le> n" by simp
    then obtain j where n: "n = k + j" using le_Suc_ex by blast
    from assms(3) have "bit (drop_bit k v1) j = False" by simp
    then have a: "\<not> bit v1 n" by (simp add: bit_drop_bit_eq n)
    from assms(4) have "bit (drop_bit k v2) j = False" by simp
    then have b: "\<not> bit v2 n" by (simp add: bit_drop_bit_eq n)
    from assms(5) have "bit (m1 OR v1) n = bit (m2 OR v2) n" by simp
    with a b show ?thesis by (simp add: bit_or_iff)
  qed
qed

lemma array_keys_append: "array_keys (xs @ ys) = array_keys xs @ array_keys ys"
  by (induction xs rule: array_keys.induct) simp_all

lemma postinsert_keys_append:
  "postinsert_keys (xs @ ys) = postinsert_keys xs @ postinsert_keys ys"
  by (induction xs rule: postinsert_keys.induct) simp_all

lemma access_A_array_keys:
  "\<exists>new. snd (snd (access_A env tlb req (w, tr))) = tr @ new \<and>
         set (array_keys new) = {tpageNum req} \<and>
         set (postinsert_keys new) \<subseteq> {tpageNum req}"
proof (cases "fst (array_lookup env (tpageNum req) w) = - 1")
  case False
  from access_A_hit [OF this, of tlb tr] show ?thesis by auto
next
  case miss: True
  show ?thesis
  proof (cases "pteSize tlb = 0")
    case True
    from access_A_trap [OF miss this, of tr] show ?thesis by auto
  next
    case False
    from access_A_miss [OF miss this, of tr] show ?thesis
      by (auto simp: array_keys_append postinsert_keys_append)
  qed
qed

lemma access_B_array_keys:
  "\<exists>new. snd (snd (access_B env tlb req (w, tr))) = tr @ new \<and>
         set (array_keys new) = {pageNum req} \<and>
         set (postinsert_keys new) \<subseteq> {pageNum req}"
proof (cases "fst (array_lookup env (pageNum req) (snd (cc_startAccess env req w))) = - 1")
  case False
  from access_B_hit [OF this, of tlb tr] show ?thesis by auto
next
  case miss: True
  show ?thesis
  proof (cases "pageWalk tlb")
    case False
    from access_B_miss_nowalk [OF miss this, of tr] show ?thesis by auto
  next
    case walk: True
    show ?thesis
    proof (cases "pteSize tlb = 0")
      case True
      from access_B_trap [OF miss walk this, of tr] show ?thesis by auto
    next
      case False
      from access_B_miss_walk [OF miss walk this, of tr] show ?thesis by auto
    qed
  qed
qed

lemma translate_A_array_keys:
  "\<exists>new. snd (snd (translate_A env tlb vAddr c (w, tr))) = tr @ new \<and>
         set (array_keys new) = {pPageNum tlb vAddr} \<and>
         set (postinsert_keys new) \<subseteq> {pPageNum tlb vAddr}"
  using access_A_array_keys
    [of env tlb "\<lparr>tpageNum = pPageNum tlb vAddr, tcycle = c, tflags = 0\<rparr>" w tr]
  by (simp add: translate_A_def)

lemma translate_B_array_keys:
  "\<exists>new. snd (snd (translate_B env tlb vAddr c (w, tr))) = tr @ new \<and>
         set (array_keys new) = {pPageNum tlb vAddr} \<and>
         set (postinsert_keys new) \<subseteq> {pPageNum tlb vAddr}"
  using access_B_array_keys
    [of env tlb "\<lparr>pageNum = pPageNum tlb vAddr, type = GETS, childId = 0, state = DummyState,
                 cycle = c, childLock = None, initialState = I,
                 srcId = tlbSrcId tlb, flags = reqFlags tlb\<rparr>"
        "w\<lparr>cells := (cells w)(DummyState := I)\<rparr>" tr]
  by (simp add: translate_B_def init_dummyState_def Let_def)

lemma vPageNum_range: "drop_bit (64 - pageBits tlb) (vPageNum tlb va) = 0"
proof (rule bit_eqI)
  fix n
  assume "possible_bit TYPE(64 word) n"
  have "\<not> bit va (64 - pageBits tlb + n + pageBits tlb)"
    using bit_imp_le_length [of va "64 - pageBits tlb + n + pageBits tlb"] by auto
  then show "bit (drop_bit (64 - pageBits tlb) (vPageNum tlb va)) n = bit (0 :: 64 word) n"
    by (simp add: vPageNum_def bit_drop_bit_eq add.commute add.left_commute)
qed

text \<open>
  C6.  Take two distinct process masks whose set bits lie at or above bit \<open>k\<close>, and two
  virtual addresses (possibly the same) whose page numbers are below \<open>2 ^ k\<close>.  Then the keys
  \<open>translate\<close> computes for the two processes differ, and in either revision the keys one
  translation hands to the array (\<open>lookup\<close>, \<open>preinsert\<close>, \<open>postinsert\<close>) are disjoint from
  those of the other.
\<close>

theorem translate_keys_distinct:
  assumes "m1 \<noteq> m2" and "take_bit k m1 = 0" and "take_bit k m2 = 0"
    and "drop_bit k (vPageNum tlb va1) = 0" and "drop_bit k (vPageNum tlb va2) = 0"
  shows "pPageNum (tlb\<lparr>procMask := m1\<rparr>) va1 \<noteq> pPageNum (tlb\<lparr>procMask := m2\<rparr>) va2 \<and>
         set (array_keys (snd (snd (translate_A envA (tlb\<lparr>procMask := m1\<rparr>) va1 c1 (wA1, []))))) \<inter>
         set (array_keys (snd (snd (translate_A envA (tlb\<lparr>procMask := m2\<rparr>) va2 c2 (wA2, []))))) = {} \<and>
         set (array_keys (snd (snd (translate_B envB (tlb\<lparr>procMask := m1\<rparr>) va1 c1 (wB1, []))))) \<inter>
         set (array_keys (snd (snd (translate_B envB (tlb\<lparr>procMask := m2\<rparr>) va2 c2 (wB2, []))))) = {}"
proof -
  let ?t1 = "tlb\<lparr>procMask := m1\<rparr>" and ?t2 = "tlb\<lparr>procMask := m2\<rparr>"
  have v: "vPageNum ?t1 va1 = vPageNum tlb va1" "vPageNum ?t2 va2 = vPageNum tlb va2"
    by (simp_all add: vPageNum_def)
  have ne: "pPageNum ?t1 va1 \<noteq> pPageNum ?t2 va2"
  proof
    assume "pPageNum ?t1 va1 = pPageNum ?t2 va2"
    then have "m1 OR vPageNum tlb va1 = m2 OR vPageNum tlb va2"
      by (simp add: pPageNum_def v)
    from masked_key_inject [OF assms(2,3,4,5) this] assms(1) show False by simp
  qed
  from translate_A_array_keys [of envA ?t1 va1 c1 wA1 "[]"]
    translate_A_array_keys [of envA ?t2 va2 c2 wA2 "[]"] ne
  have A: "set (array_keys (snd (snd (translate_A envA ?t1 va1 c1 (wA1, []))))) \<inter>
         set (array_keys (snd (snd (translate_A envA ?t2 va2 c2 (wA2, []))))) = {}"
    by auto
  from translate_B_array_keys [of envB ?t1 va1 c1 wB1 "[]"]
    translate_B_array_keys [of envB ?t2 va2 c2 wB2 "[]"] ne
  have B: "set (array_keys (snd (snd (translate_B envB ?t1 va1 c1 (wB1, []))))) \<inter>
         set (array_keys (snd (snd (translate_B envB ?t2 va2 c2 (wB2, []))))) = {}"
    by auto
  from ne A B show ?thesis by blast
qed

text \<open>
  The theorem of C6 for masks with bit 52 and bit 53 set, \<open>pageBits = 12\<close>, and the virtual
  address \<open>0x1234\<close> in both processes.
\<close>

theorem translate_keys_distinct_witness:
  "(0x0010000000000000 :: 64 word) \<noteq> 0x0020000000000000 \<and>
   take_bit 52 (0x0010000000000000 :: 64 word) = 0 \<and>
   take_bit 52 (0x0020000000000000 :: 64 word) = 0 \<and>
   drop_bit 52 (vPageNum demo_tlb 0x1234) = 0 \<and>
   pPageNum (demo_tlb\<lparr>procMask := 0x0010000000000000\<rparr>) 0x1234 \<noteq>
   pPageNum (demo_tlb\<lparr>procMask := 0x0020000000000000\<rparr>) 0x1234 \<and>
   set (array_keys (snd (snd (translate_A (demo_env False 30)
          (demo_tlb\<lparr>procMask := 0x0010000000000000\<rparr>) 0x1234 100 (demo_world None, []))))) \<inter>
   set (array_keys (snd (snd (translate_A (demo_env False 30)
          (demo_tlb\<lparr>procMask := 0x0020000000000000\<rparr>) 0x1234 150 (demo_world None, []))))) = {} \<and>
   set (array_keys (snd (snd (translate_B (demo_env False 30)
          (demo_tlb\<lparr>procMask := 0x0010000000000000\<rparr>) 0x1234 100 (demo_world None, []))))) \<inter>
   set (array_keys (snd (snd (translate_B (demo_env False 30)
          (demo_tlb\<lparr>procMask := 0x0020000000000000\<rparr>) 0x1234 150 (demo_world None, []))))) = {}"
proof -
  have 1: "(0x0010000000000000 :: 64 word) \<noteq> 0x0020000000000000" by simp
  have 2: "take_bit 52 (0x0010000000000000 :: 64 word) = 0" by (simp add: take_bit_eq_mod)
  have 3: "take_bit 52 (0x0020000000000000 :: 64 word) = 0" by (simp add: take_bit_eq_mod)
  have 4: "drop_bit 52 (vPageNum demo_tlb 0x1234) = 0"
    by (simp add: vPageNum_def demo_tlb_def drop_bit_eq_div)
  from translate_keys_distinct [OF 1 2 3 4 4, of "demo_env False 30" 100 "demo_world None" 150
      "demo_world None" "demo_env False 30" "demo_world None" "demo_world None"] 1 2 3 4
  show ?thesis by blast
qed

section \<open>Bracketing and insertion\<close>

text \<open>
  C7.  Revision B (with \<open>pteSize\<close> not zero) always returns, and its calls to \<open>startAccess\<close>
  and \<open>endAccess\<close> are exactly one \<open>startAccess\<close> on the request followed by one
  \<open>endAccess\<close> on the same request (carrying the type \<open>startAccess\<close> left in it), whatever
  the skip flag was.  Whenever revision A returns, it has made no such call on a hit and
  on a miss exactly one \<open>startAccess\<close> on the nested request, which did not report skip,
  followed by one \<open>endAccess\<close> on it.
\<close>

theorem access_start_end_matched:
  assumes "pteSize tlb \<noteq> 0" and "outcome_A envA tlbA reqA wA = Inr cA"
  shows "(\<exists>ty c. outcome_B env tlb req w = Inr c \<and>
            brackets (calls_B env tlb req w) =
              [EvStartAccess req (skips_B env req w) ty, EvEndAccess (req\<lparr>type := ty\<rparr>)]) \<and>
         (\<exists>ty. brackets (calls_A envA tlbA reqA wA) =
            (if misses_A envA reqA wA
             then [EvStartAccess (mem_req_A tlbA reqA) False ty,
                   EvEndAccess ((mem_req_A tlbA reqA)\<lparr>type := ty\<rparr>)]
             else []))"
proof -
  have B: "\<exists>ty c. outcome_B env tlb req w = Inr c \<and>
            brackets (calls_B env tlb req w) =
              [EvStartAccess req (skips_B env req w) ty, EvEndAccess (req\<lparr>type := ty\<rparr>)]"
  proof (cases "fst (array_lookup env (pageNum req) (snd (cc_startAccess env req w))) = - 1")
    case False
    from access_B_hit [OF this, of tlb "[]"] show ?thesis
      by (auto simp: calls_B_def outcome_B_def brackets_def skips_B_def)
  next
    case miss: True
    show ?thesis
    proof (cases "pageWalk tlb")
      case False
      from access_B_miss_nowalk [OF miss this, of "[]"] show ?thesis
        by (auto simp: calls_B_def outcome_B_def brackets_def skips_B_def)
    next
      case True
      from access_B_miss_walk [OF miss this assms(1), of "[]"] show ?thesis
        by (auto simp: calls_B_def outcome_B_def brackets_def skips_B_def)
    qed
  qed
  have A: "\<exists>ty. brackets (calls_A envA tlbA reqA wA) =
            (if misses_A envA reqA wA
             then [EvStartAccess (mem_req_A tlbA reqA) False ty,
                   EvEndAccess ((mem_req_A tlbA reqA)\<lparr>type := ty\<rparr>)]
             else [])"
  proof (cases "fst (array_lookup envA (tpageNum reqA) wA) = - 1")
    case False
    from access_A_hit [OF this, of tlbA "[]"] False show ?thesis
      by (auto simp: calls_A_def brackets_def misses_A_def)
  next
    case miss: True
    show ?thesis
    proof (cases "pteSize tlbA = 0")
      case True
      from access_A_trap [OF miss this, of "[]"] assms(2) show ?thesis
        by (auto simp: outcome_A_def)
    next
      case False
      from access_A_miss [OF miss False, of "[]"]
      obtain l wb sk ty c w' where r: "access_A envA tlbA reqA (wA, []) =
           ((if sk then Inl AssertionFailed else Inr c), w',
            [] @ [EvLookup (tpageNum reqA) (- 1), EvPreinsert (tpageNum reqA) l wb,
                  EvPostinsert (tpageNum reqA) (mem_req_A tlbA reqA) l,
                  EvStartAccess (mem_req_A tlbA reqA) sk ty] @
                 (if sk then []
                  else [EvProcessAccess ((mem_req_A tlbA reqA)\<lparr>type := ty\<rparr>) l
                          (tcycle reqA + ucast (accLat tlbA) + pageWalkLat tlbA) c,
                        EvEndAccess ((mem_req_A tlbA reqA)\<lparr>type := ty\<rparr>)]))"
        by blast
      from r assms(2) have sk: "\<not> sk"
        by (auto simp: outcome_A_def split: if_splits)
      from r sk miss show ?thesis
        by (simp add: calls_A_def brackets_def misses_A_def)
    qed
  qed
  from A B show ?thesis by blast
qed

text \<open>
  The theorem of C7 on the skip path of revision B and on a miss of revision A.
\<close>

theorem access_start_end_matched_witness:
  "pteSize demo_tlb \<noteq> 0 \<and>
   outcome_A (demo_env False 30) demo_tlb \<lparr>tpageNum = 1, tcycle = 100, tflags = 0\<rparr>
     (demo_world None) = Inr 142 \<and>
   skips_B (demo_env True 30) (demo_req 1 100) (demo_world None) \<and>
   misses_A (demo_env False 30) \<lparr>tpageNum = 1, tcycle = 100, tflags = 0\<rparr> (demo_world None) \<and>
   (\<exists>ty c. outcome_B (demo_env True 30) demo_tlb (demo_req 1 100) (demo_world None) = Inr c \<and>
      brackets (calls_B (demo_env True 30) demo_tlb (demo_req 1 100) (demo_world None)) =
        [EvStartAccess (demo_req 1 100) True ty, EvEndAccess ((demo_req 1 100)\<lparr>type := ty\<rparr>)]) \<and>
   (\<exists>ty. brackets (calls_A (demo_env False 30) demo_tlb
        \<lparr>tpageNum = 1, tcycle = 100, tflags = 0\<rparr> (demo_world None)) =
      [EvStartAccess (mem_req_A demo_tlb \<lparr>tpageNum = 1, tcycle = 100, tflags = 0\<rparr>) False ty,
       EvEndAccess ((mem_req_A demo_tlb \<lparr>tpageNum = 1, tcycle = 100, tflags = 0\<rparr>)
          \<lparr>type := ty\<rparr>)])"
proof -
  let ?R = "\<lparr>tpageNum = 1, tcycle = 100, tflags = 0\<rparr>"
  have 1: "pteSize demo_tlb \<noteq> 0" by (simp add: demo_tlb_def)
  have 2: "outcome_A (demo_env False 30) demo_tlb ?R (demo_world None) = Inr 142"
    by (simp add: outcome_A_def access_A_def call_defs demo_defs Let_def)
  have 3: "skips_B (demo_env True 30) (demo_req 1 100) (demo_world None)"
    by (simp add: skips_B_def demo_defs)
  have 4: "misses_A (demo_env False 30) ?R (demo_world None)"
    by (simp add: misses_A_def demo_defs)
  from access_start_end_matched [OF 1 2, of "demo_env True 30" "demo_req 1 100" "demo_world None"]
    1 2 3 4
  show ?thesis by simp
qed

text \<open>
  C8.  In both revisions (with \<open>pteSize\<close> not zero) an access that hits calls neither
  \<open>preinsert\<close> nor \<open>postinsert\<close> nor \<open>processEviction\<close>, and an access that misses calls
  \<open>preinsert\<close> exactly once, then \<open>postinsert\<close> exactly once, with the key of the request
  and the slot \<open>preinsert\<close> returned.
\<close>

theorem access_insert_pairing:
  assumes "pteSize tlb \<noteq> 0" and "pteSize tlbA \<noteq> 0"
  shows "(if misses_B env req w
          then \<exists>l wb r. inserts (calls_B env tlb req w) =
                  [EvPreinsert (pageNum req) l wb, EvPostinsert (pageNum req) r l]
          else inserts (calls_B env tlb req w) = [] \<and>
               filter is_processEviction (calls_B env tlb req w) = []) \<and>
         (if misses_A envA reqA wA
          then \<exists>l wb r. inserts (calls_A envA tlbA reqA wA) =
                  [EvPreinsert (tpageNum reqA) l wb, EvPostinsert (tpageNum reqA) r l]
          else inserts (calls_A envA tlbA reqA wA) = [] \<and>
               filter is_processEviction (calls_A envA tlbA reqA wA) = [])"
proof -
  have B: "if misses_B env req w
          then \<exists>l wb r. inserts (calls_B env tlb req w) =
                  [EvPreinsert (pageNum req) l wb, EvPostinsert (pageNum req) r l]
          else inserts (calls_B env tlb req w) = [] \<and>
               filter is_processEviction (calls_B env tlb req w) = []"
  proof (cases "fst (array_lookup env (pageNum req) (snd (cc_startAccess env req w))) = - 1")
    case False
    from access_B_hit [OF this, of tlb "[]"] False show ?thesis
      by (auto simp: calls_B_def inserts_def misses_B_def)
  next
    case miss: True
    show ?thesis
    proof (cases "pageWalk tlb")
      case False
      from access_B_miss_nowalk [OF miss this, of "[]"] miss show ?thesis
        by (auto simp: calls_B_def inserts_def misses_B_def)
    next
      case True
      from access_B_miss_walk [OF miss this assms(1), of "[]"] miss show ?thesis
        by (auto simp: calls_B_def inserts_def misses_B_def)
    qed
  qed
  have A: "if misses_A envA reqA wA
          then \<exists>l wb r. inserts (calls_A envA tlbA reqA wA) =
                  [EvPreinsert (tpageNum reqA) l wb, EvPostinsert (tpageNum reqA) r l]
          else inserts (calls_A envA tlbA reqA wA) = [] \<and>
               filter is_processEviction (calls_A envA tlbA reqA wA) = []"
  proof (cases "fst (array_lookup envA (tpageNum reqA) wA) = - 1")
    case False
    from access_A_hit [OF this, of tlbA "[]"] False show ?thesis
      by (auto simp: calls_A_def inserts_def misses_A_def)
  next
    case miss: True
    from access_A_miss [OF miss assms(2), of "[]"] miss show ?thesis
      by (auto simp: calls_A_def inserts_def misses_A_def)
  qed
  from A B show ?thesis by blast
qed

text \<open>
  The theorem of C8 at a miss of revision B and a hit of revision A.
\<close>

theorem access_insert_pairing_witness:
  "pteSize demo_tlb \<noteq> 0 \<and>
   misses_B (demo_env False 30) (demo_req 1 100) (demo_world None) \<and>
   \<not> misses_A (demo_env False 30) \<lparr>tpageNum = 1, tcycle = 100, tflags = 0\<rparr>
        (demo_world (Some 1)) \<and>
   (\<exists>l wb r. inserts (calls_B (demo_env False 30) demo_tlb (demo_req 1 100) (demo_world None)) =
      [EvPreinsert (pageNum (demo_req 1 100)) l wb, EvPostinsert (pageNum (demo_req 1 100)) r l]) \<and>
   inserts (calls_A (demo_env False 30) demo_tlb \<lparr>tpageNum = 1, tcycle = 100, tflags = 0\<rparr>
      (demo_world (Some 1))) = [] \<and>
   filter is_processEviction (calls_A (demo_env False 30) demo_tlb
      \<lparr>tpageNum = 1, tcycle = 100, tflags = 0\<rparr> (demo_world (Some 1))) = []"
proof -
  let ?R = "\<lparr>tpageNum = 1, tcycle = 100, tflags = 0\<rparr>"
  have 1: "pteSize demo_tlb \<noteq> 0" by (simp add: demo_tlb_def)
  have 2: "misses_B (demo_env False 30) (demo_req 1 100) (demo_world None)"
    by (simp add: misses_B_def demo_defs)
  have 3: "\<not> misses_A (demo_env False 30) ?R (demo_world (Some 1))"
    by (simp add: misses_A_def demo_defs)
  from access_insert_pairing [OF 1 1, of "demo_env False 30" "demo_req 1 100" "demo_world None"
      "demo_env False 30" ?R "demo_world (Some 1)"] 1 2 3
  show ?thesis by simp
qed

section \<open>The assertion of revision A\<close>

text \<open>
  C9.  On every miss of revision A (with \<open>pteSize\<close> not zero) \<open>startAccess\<close> is called exactly
  once, on the nested page-table-entry fetch.  If it reports skip, the assertion fails: the
  run stops there, \<open>startAccess\<close> was its last call, and neither \<open>processAccess\<close> nor
  \<open>endAccess\<close> is called.  If it does not, the access returns a cycle.
\<close>

theorem access_A_nested_skip_asserts:
  assumes "misses_A env req w" and "pteSize tlb \<noteq> 0"
  shows "\<exists>sk ty. filter is_startAccess (calls_A env tlb req w) =
                   [EvStartAccess (mem_req_A tlb req) sk ty] \<and>
                 (if sk
                  then outcome_A env tlb req w = Inl AssertionFailed \<and>
                       last (calls_A env tlb req w) = EvStartAccess (mem_req_A tlb req) True ty \<and>
                       filter is_processAccess (calls_A env tlb req w) = [] \<and>
                       filter is_endAccess (calls_A env tlb req w) = []
                  else \<exists>c. outcome_A env tlb req w = Inr c)"
proof -
  from assms(1) have miss: "fst (array_lookup env (tpageNum req) w) = - 1"
    by (simp add: misses_A_def)
  from access_A_miss [OF miss assms(2), of "[]"]
  obtain l wb sk ty c w' where r: "access_A env tlb req (w, []) =
           ((if sk then Inl AssertionFailed else Inr c), w',
            [] @ [EvLookup (tpageNum req) (- 1), EvPreinsert (tpageNum req) l wb,
                  EvPostinsert (tpageNum req) (mem_req_A tlb req) l,
                  EvStartAccess (mem_req_A tlb req) sk ty] @
                 (if sk then []
                  else [EvProcessAccess ((mem_req_A tlb req)\<lparr>type := ty\<rparr>) l
                          (tcycle req + ucast (accLat tlb) + pageWalkLat tlb) c,
                        EvEndAccess ((mem_req_A tlb req)\<lparr>type := ty\<rparr>)]))"
    by blast
  show ?thesis
  proof (cases sk)
    case True
    with r have "filter is_startAccess (calls_A env tlb req w) =
                   [EvStartAccess (mem_req_A tlb req) True ty]"
      "outcome_A env tlb req w = Inl AssertionFailed"
      "last (calls_A env tlb req w) = EvStartAccess (mem_req_A tlb req) True ty"
      "filter is_processAccess (calls_A env tlb req w) = []"
      "filter is_endAccess (calls_A env tlb req w) = []"
      by (simp_all add: calls_A_def outcome_A_def)
    then show ?thesis by force
  next
    case False
    with r have "filter is_startAccess (calls_A env tlb req w) =
                   [EvStartAccess (mem_req_A tlb req) False ty]"
      "outcome_A env tlb req w = Inr c"
      by (simp_all add: calls_A_def outcome_A_def)
    then show ?thesis by force
  qed
qed

text \<open>
  The theorem of C9 with a controller that reports skip: the run ends with the failed
  assertion.
\<close>

theorem access_A_nested_skip_asserts_witness:
  "misses_A (demo_env True 30) \<lparr>tpageNum = 1, tcycle = 100, tflags = 0\<rparr> (demo_world None) \<and>
   pteSize demo_tlb \<noteq> 0 \<and>
   filter is_startAccess (calls_A (demo_env True 30) demo_tlb
      \<lparr>tpageNum = 1, tcycle = 100, tflags = 0\<rparr> (demo_world None)) =
     [EvStartAccess (mem_req_A demo_tlb \<lparr>tpageNum = 1, tcycle = 100, tflags = 0\<rparr>) True GETS] \<and>
   outcome_A (demo_env True 30) demo_tlb \<lparr>tpageNum = 1, tcycle = 100, tflags = 0\<rparr>
      (demo_world None) = Inl AssertionFailed \<and>
   filter is_processAccess (calls_A (demo_env True 30) demo_tlb
      \<lparr>tpageNum = 1, tcycle = 100, tflags = 0\<rparr> (demo_world None)) = [] \<and>
   filter is_endAccess (calls_A (demo_env True 30) demo_tlb
      \<lparr>tpageNum = 1, tcycle = 100, tflags = 0\<rparr> (demo_world None)) = []"
proof -
  let ?E = "demo_env True 30"
  let ?R = "\<lparr>tpageNum = 1, tcycle = 100, tflags = 0\<rparr>"
  have 1: "misses_A ?E ?R (demo_world None)"
    by (simp add: misses_A_def demo_defs)
  have 2: "pteSize demo_tlb \<noteq> 0" by (simp add: demo_tlb_def)
  have s: "filter is_startAccess (calls_A ?E demo_tlb ?R (demo_world None)) =
     [EvStartAccess (mem_req_A demo_tlb ?R) True GETS]"
    by (simp add: calls_A_def access_A_def call_defs demo_defs mem_req_A_def Let_def)
  from access_A_nested_skip_asserts [OF 1 2] s
  have "outcome_A ?E demo_tlb ?R (demo_world None) = Inl AssertionFailed \<and>
        filter is_processAccess (calls_A ?E demo_tlb ?R (demo_world None)) = [] \<and>
        filter is_endAccess (calls_A ?E demo_tlb ?R (demo_world None)) = []"
    by (auto split: if_splits)
  with 1 2 s show ?thesis by blast
qed

section \<open>Keys committed to the array\<close>

text \<open>
  Over a history of translations, every key committed by \<open>postinsert\<close> is the key of one of
  the translations: the process mask combined with the shifted virtual address.
\<close>

lemma translate_seq_A_keys:
  "\<exists>new. snd (translate_seq_A env tlb xs (w, tr)) = tr @ new \<and>
         set (postinsert_keys new) \<subseteq>
           (\<lambda>(m, vAddr, c). m OR drop_bit (pageBits tlb) vAddr) ` set xs"
proof (induction xs arbitrary: w tr)
  case Nil
  show ?case by simp
next
  case (Cons x xs)
  obtain m vAddr c where x: "x = (m, vAddr, c)" by (cases x) auto
  obtain r w1 tr1 where t: "translate_A env (tlb\<lparr>procMask := m\<rparr>) vAddr c (w, tr) = (r, w1, tr1)"
    by (cases "translate_A env (tlb\<lparr>procMask := m\<rparr>) vAddr c (w, tr)") auto
  from translate_A_array_keys [of env "tlb\<lparr>procMask := m\<rparr>" vAddr c w tr] t
  obtain new1 where n1: "tr1 = tr @ new1"
    "set (postinsert_keys new1) \<subseteq> {m OR drop_bit (pageBits tlb) vAddr}"
    by (auto simp: pPageNum_def vPageNum_def)
  show ?case
  proof (cases r)
    case (Inl e)
    with x t n1 show ?thesis by auto
  next
    case (Inr c')
    from Cons.IH [of w1 tr1] obtain new2 where
      n2: "snd (translate_seq_A env tlb xs (w1, tr1)) = tr1 @ new2"
      "set (postinsert_keys new2) \<subseteq>
           (\<lambda>(m, vAddr, c). m OR drop_bit (pageBits tlb) vAddr) ` set xs"
      by blast
    have "snd (translate_seq_A env tlb (x # xs) (w, tr)) = tr @ (new1 @ new2)"
      using x t Inr n1(1) n2(1) by simp
    moreover have "set (postinsert_keys (new1 @ new2)) \<subseteq>
           (\<lambda>(m, vAddr, c). m OR drop_bit (pageBits tlb) vAddr) ` set (x # xs)"
      using n1(2) n2(2) x by (auto simp: postinsert_keys_append)
    ultimately show ?thesis by blast
  qed
qed

lemma translate_seq_B_keys:
  "\<exists>new. snd (translate_seq_B env tlb xs (w, tr)) = tr @ new \<and>
         set (postinsert_keys new) \<subseteq>
           (\<lambda>(m, vAddr, c). m OR drop_bit (pageBits tlb) vAddr) ` set xs"
proof (induction xs arbitrary: w tr)
  case Nil
  show ?case by simp
next
  case (Cons x xs)
  obtain m vAddr c where x: "x = (m, vAddr, c)" by (cases x) auto
  obtain r w1 tr1 where t: "translate_B env (tlb\<lparr>procMask := m\<rparr>) vAddr c (w, tr) = (r, w1, tr1)"
    by (cases "translate_B env (tlb\<lparr>procMask := m\<rparr>) vAddr c (w, tr)") auto
  from translate_B_array_keys [of env "tlb\<lparr>procMask := m\<rparr>" vAddr c w tr] t
  obtain new1 where n1: "tr1 = tr @ new1"
    "set (postinsert_keys new1) \<subseteq> {m OR drop_bit (pageBits tlb) vAddr}"
    by (auto simp: pPageNum_def vPageNum_def)
  show ?case
  proof (cases r)
    case (Inl e)
    with x t n1 show ?thesis by auto
  next
    case (Inr c')
    from Cons.IH [of w1 tr1] obtain new2 where
      n2: "snd (translate_seq_B env tlb xs (w1, tr1)) = tr1 @ new2"
      "set (postinsert_keys new2) \<subseteq>
           (\<lambda>(m, vAddr, c). m OR drop_bit (pageBits tlb) vAddr) ` set xs"
      by blast
    have "snd (translate_seq_B env tlb (x # xs) (w, tr)) = tr @ (new1 @ new2)"
      using x t Inr n1(1) n2(1) by simp
    moreover have "set (postinsert_keys (new1 @ new2)) \<subseteq>
           (\<lambda>(m, vAddr, c). m OR drop_bit (pageBits tlb) vAddr) ` set (x # xs)"
      using n1(2) n2(2) x by (auto simp: postinsert_keys_append)
    ultimately show ?thesis by blast
  qed
qed

text \<open>
  On the array of the specification, the controller and the lookup leave the slots as they
  are, and an access changes them on a miss only, by committing the page number of its
  request into the victim slot.  Hence over a history of translations the resident keys
  are those resident at the start and keys of the translations issued.
\<close>

lemma set_resident: "set (resident ss) = {k. Some k \<in> set ss}"
  by (induction ss rule: resident.induct) auto

lemma resident_update:
  "set (resident (ss[i := Some k])) \<subseteq> insert k (set (resident ss))"
  using set_update_subset_insert [of ss i "Some k"] by (auto simp: set_resident)

lemma slots_ctl_put [simp]: "slots (coll (ctl_put w v)) = slots (coll w)"
  and rp_ctl_put [simp]: "rp (coll (ctl_put w v)) = rp (coll w)"
  by (simp_all add: ctl_put_def)

lemma access_B_spec_slots:
  "slots (coll (fst (snd (access_B (spec_env pol ctl) tlb req (w, tr))))) =
     (if find_slot (pageNum req) (slots (coll w)) 0 = - 1 \<and> (pageWalk tlb \<longrightarrow> pteSize tlb \<noteq> 0)
      then (slots (coll w))[victim_slot pol (pageNum req) w := Some (pageNum req)]
      else slots (coll w))"
  by (auto simp: access_B_def access_B_miss_def access_B_walk_def call_defs spec_env_def
      victim_slot_def Let_def split: prod.splits)

lemma access_A_spec_slots:
  "slots (coll (fst (snd (access_A (spec_env pol ctl) tlb req (w, tr))))) =
     (if find_slot (tpageNum req) (slots (coll w)) 0 = - 1 \<and> pteSize tlb \<noteq> 0
      then (slots (coll w))[victim_slot pol (tpageNum req) w := Some (tpageNum req)]
      else slots (coll w))"
  by (auto simp: access_A_def call_defs spec_env_def victim_slot_def Let_def
      split: prod.splits)

lemma translate_B_spec_resident:
  "set (resident (slots (coll (fst (snd (translate_B (spec_env pol ctl) tlb vAddr c (w, tr))))))) \<subseteq>
     insert (pPageNum tlb vAddr) (set (resident (slots (coll w))))"
  using resident_update [of "slots (coll w)"]
  by (auto simp: translate_B_def init_dummyState_def Let_def access_B_spec_slots victim_slot_def)

lemma translate_A_spec_resident:
  "set (resident (slots (coll (fst (snd (translate_A (spec_env pol ctl) tlb vAddr c (w, tr))))))) \<subseteq>
     insert (pPageNum tlb vAddr) (set (resident (slots (coll w))))"
  using resident_update [of "slots (coll w)"]
  by (auto simp: translate_A_def Let_def access_A_spec_slots)

lemma translate_seq_B_resident:
  "set (resident (slots (coll (fst (translate_seq_B (spec_env pol ctl) tlb xs (w, tr)))))) \<subseteq>
     set (resident (slots (coll w))) \<union>
     (\<lambda>(m, vAddr, c). m OR drop_bit (pageBits tlb) vAddr) ` set xs"
proof (induction xs arbitrary: w tr)
  case Nil
  show ?case by simp
next
  case (Cons x xs)
  obtain m vAddr c where x: "x = (m, vAddr, c)" by (cases x) auto
  let ?E = "spec_env pol ctl"
  obtain r w1 tr1 where t: "translate_B ?E (tlb\<lparr>procMask := m\<rparr>) vAddr c (w, tr) = (r, w1, tr1)"
    by (cases "translate_B ?E (tlb\<lparr>procMask := m\<rparr>) vAddr c (w, tr)") auto
  from translate_B_spec_resident [of pol ctl "tlb\<lparr>procMask := m\<rparr>" vAddr c w tr] t
  have s1: "set (resident (slots (coll w1))) \<subseteq>
              insert (m OR drop_bit (pageBits tlb) vAddr) (set (resident (slots (coll w))))"
    by (simp add: pPageNum_def vPageNum_def)
  show ?case
  proof (cases r)
    case (Inl e)
    with x t s1 show ?thesis by auto
  next
    case (Inr c')
    from Cons.IH [of w1 tr1] s1 x t Inr show ?thesis by auto
  qed
qed

lemma translate_seq_A_resident:
  "set (resident (slots (coll (fst (translate_seq_A (spec_env pol ctl) tlb xs (w, tr)))))) \<subseteq>
     set (resident (slots (coll w))) \<union>
     (\<lambda>(m, vAddr, c). m OR drop_bit (pageBits tlb) vAddr) ` set xs"
proof (induction xs arbitrary: w tr)
  case Nil
  show ?case by simp
next
  case (Cons x xs)
  obtain m vAddr c where x: "x = (m, vAddr, c)" by (cases x) auto
  let ?E = "spec_env pol ctl"
  obtain r w1 tr1 where t: "translate_A ?E (tlb\<lparr>procMask := m\<rparr>) vAddr c (w, tr) = (r, w1, tr1)"
    by (cases "translate_A ?E (tlb\<lparr>procMask := m\<rparr>) vAddr c (w, tr)") auto
  from translate_A_spec_resident [of pol ctl "tlb\<lparr>procMask := m\<rparr>" vAddr c w tr] t
  have s1: "set (resident (slots (coll w1))) \<subseteq>
              insert (m OR drop_bit (pageBits tlb) vAddr) (set (resident (slots (coll w))))"
    by (simp add: pPageNum_def vPageNum_def)
  show ?case
  proof (cases r)
    case (Inl e)
    with x t s1 show ?thesis by auto
  next
    case (Inr c')
    from Cons.IH [of w1 tr1] s1 x t Inr show ?thesis by auto
  qed
qed

lemma misses_B_spec:
  "misses_B (spec_env pol ctl) req w = (find_slot (pageNum req) (slots (coll w)) 0 = - 1)"
  by (simp add: misses_B_def spec_env_def split: prod.splits)

lemma misses_A_spec:
  "misses_A (spec_env pol ctl) req w = (find_slot (tpageNum req) (slots (coll w)) 0 = - 1)"
  by (simp add: misses_A_def spec_env_def)

text \<open>
  C10.  In both revisions (with \<open>pteSize\<close> not zero) an access that misses calls \<open>postinsert\<close>
  exactly once, with the page number of the original request as key, and an access that
  hits does not call it.  On the array of the specification the slots after a miss are the
  slots before it with the victim slot holding that page number, never the line address of
  the nested fetch, which is only the address of the request handed to the controller; a
  hit leaves the slots as they are.  Hence, over any history of translations, every key
  resident in the array was resident at the start or is \<open>procMask | (vAddr >> pageBits)\<close> for
  one of the translations issued; started on an empty array, every resident key is such a
  page-number key.
\<close>

theorem postinsert_commits_page_number:
  assumes "pteSize tlb \<noteq> 0"
  shows "postinsert_keys (calls_B env tlb req w) =
           (if misses_B env req w then [pageNum req] else []) \<and>
         postinsert_keys (calls_A envA tlb reqA wA) =
           (if misses_A envA reqA wA then [tpageNum reqA] else []) \<and>
         slots (coll (fst (snd (access_B (spec_env pol ctl) tlb req (ws, tr))))) =
           (if misses_B (spec_env pol ctl) req ws
            then (slots (coll ws))[victim_slot pol (pageNum req) ws := Some (pageNum req)]
            else slots (coll ws)) \<and>
         slots (coll (fst (snd (access_A (spec_env pol ctl) tlb reqA (ws, tr))))) =
           (if misses_A (spec_env pol ctl) reqA ws
            then (slots (coll ws))[victim_slot pol (tpageNum reqA) ws := Some (tpageNum reqA)]
            else slots (coll ws)) \<and>
         (misses_B (spec_env pol ctl) req ws \<and>
          victim_slot pol (pageNum req) ws < length (slots (coll ws)) \<longrightarrow>
            slots (coll (fst (snd (access_B (spec_env pol ctl) tlb req (ws, tr))))) !
              victim_slot pol (pageNum req) ws = Some (pageNum req)) \<and>
         (misses_A (spec_env pol ctl) reqA ws \<and>
          victim_slot pol (tpageNum reqA) ws < length (slots (coll ws)) \<longrightarrow>
            slots (coll (fst (snd (access_A (spec_env pol ctl) tlb reqA (ws, tr))))) !
              victim_slot pol (tpageNum reqA) ws = Some (tpageNum reqA)) \<and>
         set (resident (slots (coll (fst (translate_seq_B (spec_env pol ctl) tlb xs (ws, tr)))))) \<subseteq>
           set (resident (slots (coll ws))) \<union>
           (\<lambda>(m, vAddr, c). m OR drop_bit (pageBits tlb) vAddr) ` set xs \<and>
         set (resident (slots (coll (fst (translate_seq_A (spec_env pol ctl) tlb xs (ws, tr)))))) \<subseteq>
           set (resident (slots (coll ws))) \<union>
           (\<lambda>(m, vAddr, c). m OR drop_bit (pageBits tlb) vAddr) ` set xs"
proof -
  have B: "postinsert_keys (calls_B env tlb req w) =
           (if misses_B env req w then [pageNum req] else [])"
  proof (cases "fst (array_lookup env (pageNum req) (snd (cc_startAccess env req w))) = - 1")
    case False
    from access_B_hit [OF this, of tlb "[]"] False show ?thesis
      by (auto simp: calls_B_def misses_B_def)
  next
    case miss: True
    show ?thesis
    proof (cases "pageWalk tlb")
      case False
      from access_B_miss_nowalk [OF miss this, of "[]"] miss show ?thesis
        by (auto simp: calls_B_def misses_B_def)
    next
      case True
      from access_B_miss_walk [OF miss this assms, of "[]"] miss show ?thesis
        by (auto simp: calls_B_def misses_B_def)
    qed
  qed
  have A: "postinsert_keys (calls_A envA tlb reqA wA) =
           (if misses_A envA reqA wA then [tpageNum reqA] else [])"
  proof (cases "fst (array_lookup envA (tpageNum reqA) wA) = - 1")
    case False
    from access_A_hit [OF this, of tlb "[]"] False show ?thesis
      by (auto simp: calls_A_def misses_A_def)
  next
    case miss: True
    from access_A_miss [OF miss assms, of "[]"] miss show ?thesis
      by (auto simp: calls_A_def misses_A_def postinsert_keys_append)
  qed
  have SB: "slots (coll (fst (snd (access_B (spec_env pol ctl) tlb req (ws, tr))))) =
           (if misses_B (spec_env pol ctl) req ws
            then (slots (coll ws))[victim_slot pol (pageNum req) ws := Some (pageNum req)]
            else slots (coll ws))"
    using assms by (simp add: access_B_spec_slots misses_B_spec)
  have SA: "slots (coll (fst (snd (access_A (spec_env pol ctl) tlb reqA (ws, tr))))) =
           (if misses_A (spec_env pol ctl) reqA ws
            then (slots (coll ws))[victim_slot pol (tpageNum reqA) ws := Some (tpageNum reqA)]
            else slots (coll ws))"
    using assms by (simp add: access_A_spec_slots misses_A_spec)
  have NB: "misses_B (spec_env pol ctl) req ws \<and>
          victim_slot pol (pageNum req) ws < length (slots (coll ws)) \<longrightarrow>
            slots (coll (fst (snd (access_B (spec_env pol ctl) tlb req (ws, tr))))) !
              victim_slot pol (pageNum req) ws = Some (pageNum req)"
    by (simp add: SB)
  have NA: "misses_A (spec_env pol ctl) reqA ws \<and>
          victim_slot pol (tpageNum reqA) ws < length (slots (coll ws)) \<longrightarrow>
            slots (coll (fst (snd (access_A (spec_env pol ctl) tlb reqA (ws, tr))))) !
              victim_slot pol (tpageNum reqA) ws = Some (tpageNum reqA)"
    by (simp add: SA)
  note RB = translate_seq_B_resident [of pol ctl tlb xs ws tr]
  note RA = translate_seq_A_resident [of pol ctl tlb xs ws tr]
  from A B SA SB NA NB RA RB show ?thesis by blast
qed

text \<open>
  The theorem of C10 at a miss on page \<open>0x1234\<close>, whose nested fetch goes to line address 9:
  the one slot of the array holds \<open>0x1234\<close> afterwards.  And on a history of two processes
  translating the same virtual address on an array that starts empty.
\<close>

theorem postinsert_commits_page_number_witness:
  "pteSize demo_tlb \<noteq> 0 \<and>
   misses_B (demo_env False 30) (demo_req 4660 100) (demo_world None) \<and>
   misses_A (demo_env False 30) \<lparr>tpageNum = 4660, tcycle = 100, tflags = 0\<rparr> (demo_world None) \<and>
   misses_B (spec_env demo_pol (demo_ctl 30)) (demo_req 4660 100) (demo_level [None]) \<and>
   misses_A (spec_env demo_pol (demo_ctl 30)) \<lparr>tpageNum = 4660, tcycle = 100, tflags = 0\<rparr>
     (demo_level [None]) \<and>
   victim_slot demo_pol 4660 (demo_level [None]) < length (slots (coll (demo_level [None]))) \<and>
   postinsert_keys (calls_B (demo_env False 30) demo_tlb (demo_req 4660 100) (demo_world None)) =
     [4660] \<and>
   postinsert_keys (calls_A (demo_env False 30) demo_tlb
      \<lparr>tpageNum = 4660, tcycle = 100, tflags = 0\<rparr> (demo_world None)) = [4660] \<and>
   slots (coll (fst (snd (access_B (spec_env demo_pol (demo_ctl 30)) demo_tlb (demo_req 4660 100)
      (demo_level [None], []))))) = [Some 4660] \<and>
   slots (coll (fst (snd (access_A (spec_env demo_pol (demo_ctl 30)) demo_tlb
      \<lparr>tpageNum = 4660, tcycle = 100, tflags = 0\<rparr> (demo_level [None], []))))) = [Some 4660] \<and>
   set (resident (slots (coll (fst (translate_seq_B (spec_env demo_pol (demo_ctl 30)) demo_tlb
      [(0, 0x1234000, 100), (0x0010000000000000, 0x1234000, 150)] (demo_level [None], []))))))
     \<subseteq> {0x1234, 0x0010000000001234} \<and>
   set (resident (slots (coll (fst (translate_seq_A (spec_env demo_pol (demo_ctl 30)) demo_tlb
      [(0, 0x1234000, 100), (0x0010000000000000, 0x1234000, 150)] (demo_level [None], []))))))
     \<subseteq> {0x1234, 0x0010000000001234}"
proof -
  let ?E = "demo_env False 30"
  let ?S = "spec_env demo_pol (demo_ctl 30)"
  let ?R = "\<lparr>tpageNum = 4660, tcycle = 100, tflags = 0\<rparr>"
  let ?xs = "[(0, 0x1234000, 100), (0x0010000000000000, 0x1234000, 150)]
               :: (64 word \<times> 64 word \<times> 64 word) list"
  have 1: "pteSize demo_tlb \<noteq> 0" by (simp add: demo_tlb_def)
  have 2: "misses_B ?E (demo_req 4660 100) (demo_world None)"
    by (simp add: misses_B_def demo_defs)
  have 3: "misses_A ?E ?R (demo_world None)"
    by (simp add: misses_A_def demo_defs)
  have 4: "misses_B ?S (demo_req 4660 100) (demo_level [None])"
    by (simp add: misses_B_spec demo_level_def)
  have 5: "misses_A ?S ?R (demo_level [None])"
    by (simp add: misses_A_spec demo_level_def)
  have v: "victim_slot demo_pol 4660 (demo_level [None]) = 0"
    by (simp add: victim_slot_def demo_pol_def)
  have 6: "victim_slot demo_pol 4660 (demo_level [None]) < length (slots (coll (demo_level [None])))"
    by (simp add: v) (simp add: demo_level_def)
  have k: "(\<lambda>(m, vAddr, c). m OR drop_bit (pageBits demo_tlb) vAddr) ` set ?xs =
           {0x1234, 0x0010000000001234}"
    by (simp add: demo_tlb_def drop_bit_eq_div)
  have p: "pageNum (demo_req 4660 100) = 4660" "slots (coll (demo_level [None])) = [None]"
    "resident [None] = []"
    by (simp_all add: demo_req_def demo_level_def)
  from postinsert_commits_page_number [OF 1, of ?E "demo_req 4660 100" "demo_world None"
      ?E ?R "demo_world None" demo_pol "demo_ctl 30" "demo_level [None]" "[]" ?xs] 1 2 3 4 5 6
  show ?thesis unfolding k by (simp add: p v)
qed

end
